theory Spec2Isabelle
  imports Main "HOL-Library.Multiset"
begin

section \<open>JavaScript strings and collections\<close>

text \<open>
  A JavaScript string is modelled as a \<^typ>\<open>string\<close> whose characters are the code units
  U+0000 to U+00FF. \<open>is_js_space\<close> is the WhiteSpace and LineTerminator set of the language
  in that range (what \<open>String.prototype.trim\<close> strips and what \<open>\s\<close> matches in a regular
  expression): TAB, LF, VT, FF, CR, SP and NBSP.
\<close>

definition is_js_space :: "char \<Rightarrow> bool" where
  "is_js_space c = (of_char c \<in> {9, 10, 11, 12, 13, 32, 160 :: nat})"

definition toLowerCase_char :: "char \<Rightarrow> char" where
  "toLowerCase_char c =
     (let n = (of_char c :: nat)
      in if (65 \<le> n \<and> n \<le> 90) \<or> (192 \<le> n \<and> n \<le> 222 \<and> n \<noteq> 215)
         then char_of (n + 32) else c)"

definition toLowerCase :: "string \<Rightarrow> string" where
  "toLowerCase s = map toLowerCase_char s"

definition trim :: "string \<Rightarrow> string" where
  "trim s = rev (dropWhile is_js_space (rev (dropWhile is_js_space s)))"

text \<open>\<open>s.includes(t)\<close>: \<open>t\<close> occurs in \<open>s\<close> as a contiguous substring.\<close>

fun js_includes :: "string \<Rightarrow> string \<Rightarrow> bool" where
  "js_includes [] t = (t = [])"
| "js_includes (c # s) t = (take (length t) (c # s) = t \<or> js_includes s t)"

text \<open>
  A \<open>Set\<close> is a list without duplicates in insertion order, a \<open>Map\<close> an association list
  with distinct keys in insertion order: both are iterated in that order by the source.
\<close>

definition set_has :: "'a list \<Rightarrow> 'a \<Rightarrow> bool" where
  "set_has s x = (x \<in> set s)"

definition set_add :: "'a \<Rightarrow> 'a list \<Rightarrow> 'a list" where
  "set_add x s = (if x \<in> set s then s else s @ [x])"

text \<open>\<open>new Set(array)\<close>: the elements of the array, added one by one.\<close>

definition new_Set :: "'a list \<Rightarrow> 'a list" where
  "new_Set xs = fold set_add xs []"

definition map_has :: "('k \<times> 'v) list \<Rightarrow> 'k \<Rightarrow> bool" where
  "map_has m k = (k \<in> fst ` set m)"

definition map_get :: "('k \<times> 'v) list \<Rightarrow> 'k \<Rightarrow> 'v option" where
  "map_get m k = map_of m k"

fun map_set :: "'k \<Rightarrow> 'v \<Rightarrow> ('k \<times> 'v) list \<Rightarrow> ('k \<times> 'v) list" where
  "map_set k v [] = [(k, v)]"
| "map_set k v ((k', v') # m) = (if k' = k then (k, v) # m else (k', v') # map_set k v m)"

text \<open>
  A plain object used as a dictionary is the list of its own enumerable properties in
  property order: array-index keys (canonical decimal strings below \<open>2^32 - 1\<close>) first, in
  ascending numeric order, then the other keys in the order of their creation. The
  assignment \<open>obj[k] = v\<close> creates or overwrites an own property, except for the key
  \<open>__proto__\<close>: that assignment runs the setter inherited from \<open>Object.prototype\<close> and
  creates no own property.
\<close>

definition isDigit :: "char \<Rightarrow> bool" where
  "isDigit c = (48 \<le> (of_char c :: nat) \<and> (of_char c :: nat) \<le> 57)"

definition intOfDigits :: "string \<Rightarrow> int" where
  "intOfDigits k = fold (\<lambda>c n. 10 * n + (of_char c - 48)) k 0"

definition isArrayIndex :: "string \<Rightarrow> bool" where
  "isArrayIndex k =
     (k \<noteq> [] \<and> list_all isDigit k \<and> (length k = 1 \<or> hd k \<noteq> CHR ''0'')
      \<and> intOfDigits k < 4294967295)"

fun insertIndexKey :: "string \<Rightarrow> 'v \<Rightarrow> (string \<times> 'v) list \<Rightarrow> (string \<times> 'v) list" where
  "insertIndexKey k v [] = [(k, v)]"
| "insertIndexKey k v ((k', v') # obj) =
     (if isArrayIndex k' \<and> intOfDigits k' < intOfDigits k
      then (k', v') # insertIndexKey k v obj
      else (k, v) # (k', v') # obj)"

definition obj_set :: "string \<Rightarrow> 'v \<Rightarrow> (string \<times> 'v) list \<Rightarrow> (string \<times> 'v) list" where
  "obj_set k v obj =
     (if k = ''__proto__'' then obj
      else if k \<in> fst ` set obj then map_set k v obj
      else if isArrayIndex k then insertIndexKey k v obj
      else obj @ [(k, v)])"

section \<open>Utilities (utils)\<close>

definition normalizeEmail :: "string \<Rightarrow> string" where
  "normalizeEmail email = toLowerCase (trim email)"

text \<open>
  \<open>isValidEmail\<close> tests the regular expression \<open>/^[^\s@]+@[^\s@]+\.[^\s@]+$/\<close>. A string
  matches it exactly when a non-empty run of characters that are neither white space nor
  \<open>@\<close> is followed by one \<open>@\<close>, and what follows consists of such characters only and
  has a dot that is neither its first nor its last character.
\<close>

definition emailChar :: "char \<Rightarrow> bool" where
  "emailChar c = (\<not> is_js_space c \<and> c \<noteq> CHR ''@'')"

definition isValidEmail :: "string \<Rightarrow> bool" where
  "isValidEmail email =
     (let localPart = takeWhile emailChar email; rest = dropWhile emailChar email
      in localPart \<noteq> [] \<and>
         (case rest of
            [] \<Rightarrow> False
          | c # domain \<Rightarrow>
              c = CHR ''@'' \<and> list_all emailChar domain \<and>
              list_ex (\<lambda>i. domain ! i = CHR ''.'') [1 ..< length domain - 1]))"

text \<open>The language of that regular expression, stated directly.\<close>

definition matchesEmailRegex :: "string \<Rightarrow> bool" where
  "matchesEmailRegex s =
     (\<exists>a b c. s = a @ ''@'' @ b @ ''.'' @ c \<and> a \<noteq> [] \<and> b \<noteq> [] \<and> c \<noteq> []
        \<and> list_all emailChar a \<and> list_all emailChar b \<and> list_all emailChar c)"

text \<open>
  A value that is thrown: an \<open>Error\<close> object with its message, or anything else
  (\<open>undefined\<close> when \<open>retryWithBackoff\<close> throws a \<open>lastError\<close> it never assigned).
\<close>

datatype thrown = Error string | NotAnError

text \<open>\<open>error instanceof Error ? error.message : fallback\<close>\<close>

fun messageOr :: "thrown \<Rightarrow> string \<Rightarrow> string" where
  "messageOr (Error msg) fallback = msg"
| "messageOr NotAnError fallback = fallback"

text \<open>
  The world an operation runs in: the state of the meeting provider behind the SDK, the
  state of the user interface that a progress callback updates, the delays passed to
  \<open>sleep\<close> so far, and a log of the SDK calls in the order in which the provider has
  answered them. The last two are only written, never read, by the code.
\<close>

datatype sdkCall = MoveCall string | AdmitCall string | WaitingRoomListCall

record ('p, 'u) world =
  provider :: 'p
  ui :: 'u
  slept :: "nat list"
  calls :: "sdkCall list"

definition sleep :: "nat \<Rightarrow> ('p, 'u) world \<Rightarrow> ('p, 'u) world" where
  "sleep ms w = w\<lparr>slept := slept w @ [ms]\<rparr>"

text \<open>
  An asynchronous computation, as far as its effect on the world goes. \<open>Done r\<close>: its
  promise is fulfilled with \<open>r\<close>. \<open>Step effect rest\<close>: it is suspended at an \<open>await\<close>;
  the awaited operation takes place in some world \<open>w\<close>, which it leaves as \<open>effect w\<close>, and
  the computation goes on as \<open>rest w\<close>. What lies between two awaits runs without
  interruption. A promise that rejects is fulfilled here with a left injection. A
  computation of this type ends after finitely many steps: every operation that is
  awaited is taken to answer.
\<close>

datatype ('w, 'r) task = Done 'r | Step "'w \<Rightarrow> 'w" "'w \<Rightarrow> ('w, 'r) task"

text \<open>\<open>await operation\<close>, for an operation that answers in one step.\<close>

definition await :: "('w \<Rightarrow> 'a \<times> 'w) \<Rightarrow> ('w, 'a) task" where
  "await operation = Step (\<lambda>w. snd (operation w)) (\<lambda>w. Done (fst (operation w)))"

text \<open>\<open>const a = await t; ... g(a)\<close>: the rest of an async function after an await.\<close>

primrec bindTask :: "('w, 'a) task \<Rightarrow> ('a \<Rightarrow> ('w, 'b) task) \<Rightarrow> ('w, 'b) task" where
  "bindTask (Done a) g = g a"
| "bindTask (Step effect rest) g = Step effect (\<lambda>w. bindTask (rest w) g)"

text \<open>A computation that runs alone, with nothing else between its steps.\<close>

primrec runTask :: "('w, 'r) task \<Rightarrow> 'w \<Rightarrow> 'r \<times> 'w" where
  "runTask (Done r) w = (r, w)"
| "runTask (Step effect rest) w = runTask (rest w) (effect w)"

text \<open>One step of a computation; a finished one stays as it is.\<close>

primrec resume :: "('w, 'r) task \<Rightarrow> 'w \<Rightarrow> ('w, 'r) task \<times> 'w" where
  "resume (Done r) w = (Done r, w)"
| "resume (Step effect rest) w = (rest w, effect w)"

text \<open>
  \<open>retryWithBackoff\<close>: the loop over \<open>attempt\<close>, from 0 while \<open>attempt <= maxRetries\<close>;
  \<open>fn\<close> is the computation that a call \<open>fn()\<close> starts. The loop is suspended at
  \<open>await fn()\<close> and at \<open>await sleep(delay)\<close>.
\<close>

function retryLoop ::
  "(('p, 'u) world, thrown + 'a) task \<Rightarrow> nat \<Rightarrow> nat \<Rightarrow> nat \<Rightarrow> thrown option \<Rightarrow>
   (('p, 'u) world, thrown + 'a) task" where
  "retryLoop fn maxRetries baseDelay attempt lastError =
     (if attempt \<le> maxRetries then
        bindTask fn (\<lambda>outcome.
          case outcome of
            Inr v \<Rightarrow> Done (Inr v)
          | Inl err \<Rightarrow>
              if attempt < maxRetries
              then bindTask (await (\<lambda>w. ((), sleep (baseDelay * 3 ^ attempt) w)))
                     (\<lambda>u. retryLoop fn maxRetries baseDelay (attempt + 1) (Some err))
              else retryLoop fn maxRetries baseDelay (attempt + 1) (Some err))
      else Done (Inl (case lastError of None \<Rightarrow> NotAnError | Some err \<Rightarrow> err)))"
  by pat_completeness auto
termination
  by (relation "measure (\<lambda>(fn, maxRetries, baseDelay, attempt, lastError). Suc maxRetries - attempt)")
     auto

declare retryLoop.simps [simp del]

definition retryWithBackoff ::
  "(('p, 'u) world, thrown + 'a) task \<Rightarrow> nat \<Rightarrow> nat \<Rightarrow> (('p, 'u) world, thrown + 'a) task" where
  "retryWithBackoff fn maxRetries baseDelay = retryLoop fn maxRetries baseDelay 0 None"

text \<open>
  \<open>Promise.all(tasks)\<close> for computations started together: they take their steps in
  turns, in an order that the runtime and the provider decide, and the results come in the
  order of \<open>tasks\<close>. The order of the steps is the \<open>schedule\<close>: its next entry \<open>n\<close> lets
  the computation at position \<open>n mod length tasks\<close> take one step (nothing happens if that
  one has finished). Every interleaving of the computations is the run under some
  schedule, so what holds for all schedules holds for every interleaving. When the schedule
  is used up, what is left of each computation runs to its end, in the order of \<open>tasks\<close>.
  The processors of this repository never reject.
\<close>

fun settleAll :: "('w, 'r) task list \<Rightarrow> 'w \<Rightarrow> 'r list \<times> 'w" where
  "settleAll [] w = ([], w)"
| "settleAll (t # tasks) w =
     (case runTask t w of
        (r, w') \<Rightarrow> (case settleAll tasks w' of (rs, w'') \<Rightarrow> (r # rs, w'')))"

fun promiseAll :: "nat list \<Rightarrow> ('w, 'r) task list \<Rightarrow> 'w \<Rightarrow> 'r list \<times> 'w" where
  "promiseAll [] tasks w = settleAll tasks w"
| "promiseAll (n # schedule) tasks w =
     (if tasks = [] then ([], w)
      else case resume (tasks ! (n mod length tasks)) w of
             (t', w') \<Rightarrow> promiseAll schedule (tasks[n mod length tasks := t']) w')"

text \<open>
  \<open>processBatch\<close>: the loop over \<open>i\<close>, in steps of \<open>concurrency\<close>. The processors of a
  chunk are started together by \<open>chunk.map(processor)\<close>; \<open>schedules\<close> gives the schedule
  of each chunk in turn (the empty one when there is none left). With
  \<open>concurrency = 0\<close> and a non-empty list the loop never ends: the result is \<open>None\<close>.
\<close>

fun nextSchedule :: "nat list list \<Rightarrow> nat list" where
  "nextSchedule [] = []"
| "nextSchedule (schedule # schedules) = schedule"

partial_function (option) processBatchLoop ::
  "'t list \<Rightarrow> ('t \<Rightarrow> ('w, 'r) task) \<Rightarrow> nat \<Rightarrow> (nat \<Rightarrow> nat \<Rightarrow> 'w \<Rightarrow> 'w) option \<Rightarrow>
   nat list list \<Rightarrow> nat \<Rightarrow> 'r list \<Rightarrow> nat \<Rightarrow> 'w \<Rightarrow> ('r list \<times> 'w) option" where
  "processBatchLoop items processor concurrency onProgress schedules i results completed w =
     (if i < length items then
        (let chunk = take concurrency (drop i items)
         in case promiseAll (nextSchedule schedules) (map processor chunk) w of
              (chunkResults, w') \<Rightarrow>
                processBatchLoop items processor concurrency onProgress (tl schedules)
                  (i + concurrency) (results @ chunkResults) (completed + length chunk)
                  (case onProgress of
                     None \<Rightarrow> w'
                   | Some callback \<Rightarrow> callback (completed + length chunk) (length items) w'))
      else Some (results, w))"

declare processBatchLoop.simps [code]

definition processBatch ::
  "'t list \<Rightarrow> ('t \<Rightarrow> ('w, 'r) task) \<Rightarrow> nat \<Rightarrow> (nat \<Rightarrow> nat \<Rightarrow> 'w \<Rightarrow> 'w) option \<Rightarrow>
   nat list list \<Rightarrow> 'w \<Rightarrow> ('r list \<times> 'w) option" where
  "processBatch items processor concurrency onProgress schedules w =
     processBatchLoop items processor concurrency onProgress schedules 0 [] 0 w"

text \<open>
  What a computation can return, and what holds of it throughout: \<open>returns t r\<close> if \<open>t\<close>
  ends with \<open>r\<close> in some sequence of worlds; \<open>taskInv R Q t\<close> if every step of \<open>t\<close> takes
  a world to one related to it by \<open>R\<close> and every result of \<open>t\<close> satisfies \<open>Q\<close>.
\<close>

inductive returns :: "('w, 'r) task \<Rightarrow> 'r \<Rightarrow> bool" where
  returns_Done: "returns (Done r) r"
| returns_Step: "returns (rest w) r \<Longrightarrow> returns (Step effect rest) r"

primrec taskInv :: "('w \<Rightarrow> 'w \<Rightarrow> bool) \<Rightarrow> ('r \<Rightarrow> bool) \<Rightarrow> ('w, 'r) task \<Rightarrow> bool" where
  "taskInv R Q (Done r) = Q r"
| "taskInv R Q (Step effect rest) = (\<forall>w. R w (effect w) \<and> taskInv R Q (rest w))"

section \<open>CSV conflict parser\<close>

text \<open>
  What \<open>Papa.parse(csvContent, {header: true, skipEmptyLines: true})\<close> hands to the
  \<open>complete\<close> callback: the data rows as objects keyed by header field (every value a
  string), the header fields, and the parse errors with their row.
\<close>

type_synonym csvRow = "(string \<times> string) list"

record PapaError =
  papa_message :: string
  papa_row :: "nat option"

record PapaResult =
  papa_data :: "csvRow list"
  papa_fields :: "string list option"
  papa_errors :: "PapaError list"

text \<open>
  The library on text that has no quote character, ends its lines with LF, separates its
  fields with commas, has pairwise different header fields and has as many fields on
  every line as in the header: such text parses without error. \<open>splitOn c s\<close> is
  \<open>s.split(c)\<close>. On other text the library does more (it guesses the delimiter and
  reports rows with too few or too many fields); \<open>papaParse\<close> is applied to the sample
  texts of this section only, and the properties of \<open>parseCSV\<close> are stated for every
  result of the library.
\<close>

fun splitOn :: "char \<Rightarrow> string \<Rightarrow> string list" where
  "splitOn c [] = [[]]"
| "splitOn c (x # xs) =
     (if x = c then [] # splitOn c xs
      else (case splitOn c xs of [] \<Rightarrow> [[x]] | y # ys \<Rightarrow> (x # y) # ys))"

definition papaParse :: "string \<Rightarrow> PapaResult" where
  "papaParse csvContent =
     (case filter (\<lambda>line. line \<noteq> []) (splitOn (CHR 0x0A) csvContent) of
        [] \<Rightarrow> \<lparr> papa_data = [], papa_fields = None, papa_errors = [] \<rparr>
      | header # lines \<Rightarrow>
          (let headerFields = splitOn (CHR '','') header
           in \<lparr> papa_data =
                  map (\<lambda>line. fold (\<lambda>(k, v) obj. obj_set k v obj)
                                  (zip headerFields (splitOn (CHR '','') line)) []) lines,
                papa_fields = Some headerFields,
                papa_errors = [] \<rparr>))"

datatype csvFormat = RowBased | ColumnBased | Unknown

definition detectCSVFormat :: "string list \<Rightarrow> csvFormat" where
  "detectCSVFormat headers =
     (let normalizedHeaders = map (\<lambda>h. trim (toLowerCase h)) headers;
          hasRoundId = list_ex (\<lambda>h. js_includes h ''round'') normalizedHeaders;
          hasEmail = list_ex (\<lambda>h. h = ''email'' \<or> js_includes h ''email'') normalizedHeaders
      in if hasRoundId \<and> hasEmail \<and> length normalizedHeaders \<ge> 2 \<and> length normalizedHeaders \<le> 3
         then RowBased
         else if hasEmail \<and> length normalizedHeaders > 1 then ColumnBased
         else Unknown)"

text \<open>The decimal numeral of a number, as a template literal prints it.\<close>

fun showNat :: "nat \<Rightarrow> string" where
  "showNat n =
     (if n < 10 then [char_of (48 + n)] else showNat (n div 10) @ [char_of (48 + n mod 10)])"

declare showNat.simps [simp del]

text \<open>
  \<open>String(row[key])\<close>: the cell, or the text \<open>undefined\<close> when the row has no such field.
\<close>

definition cell :: "csvRow \<Rightarrow> string \<Rightarrow> string" where
  "cell row key = (case map_of row key of None \<Rightarrow> ''undefined'' | Some v \<Rightarrow> v)"

text \<open>\<open>keys.find(k => k.toLowerCase().includes(word))\<close>\<close>

definition findKey :: "string \<Rightarrow> string list \<Rightarrow> string option" where
  "findKey word keys = List.find (\<lambda>k. js_includes (toLowerCase k) word) keys"

text \<open>What \<open>parseRowBased\<close> and \<open>parseColumnBased\<close> return.\<close>

record RoundsResult =
  r_rounds :: "(string \<times> string list) list"
  r_emailToName :: "(string \<times> string) list"
  r_errors :: "string list"
  r_warnings :: "string list"

definition warn :: "string \<Rightarrow> RoundsResult \<Rightarrow> RoundsResult" where
  "warn message acc = acc\<lparr>r_warnings := r_warnings acc @ [message]\<rparr>"

text \<open>\<open>rounds.get(roundId).add(email)\<close>: the set stored under the key grows in place.\<close>

definition addToRound :: "string \<Rightarrow> string \<Rightarrow> (string \<times> string list) list \<Rightarrow> (string \<times> string list) list" where
  "addToRound roundId email rounds =
     map_set roundId
       (set_add email (case map_get rounds roundId of None \<Rightarrow> [] | Some emails \<Rightarrow> emails)) rounds"

text \<open>The body of the loop of \<open>parseRowBased\<close>, for the row with number \<open>rowNum\<close>.\<close>

definition parseRowBasedRow :: "csvRow \<Rightarrow> nat \<Rightarrow> RoundsResult \<Rightarrow> RoundsResult" where
  "parseRowBasedRow row rowNum acc =
     (case (findKey ''round'' (map fst row), findKey ''email'' (map fst row)) of
        (Some roundIdKey, Some emailKey) \<Rightarrow>
          (let nameKey = findKey ''name'' (map fst row);
               roundId = trim (cell row roundIdKey);
               email = trim (cell row emailKey);
               registeredName = (case nameKey of None \<Rightarrow> [] | Some k \<Rightarrow> trim (cell row k))
           in if roundId = [] then
                warn (''Row '' @ showNat rowNum @ '': Empty round_id, skipping'') acc
              else if email = [] then
                warn (''Row '' @ showNat rowNum @ '': Empty email, skipping'') acc
              else if \<not> isValidEmail email then
                warn (''Row '' @ showNat rowNum @ '': Invalid email format '' @ [CHR 0x22]
                      @ email @ [CHR 0x22] @ '', skipping'') acc
              else
                (let normalizedEmail = normalizeEmail email;
                     names = (if registeredName \<noteq> [] \<and> \<not> map_has (r_emailToName acc) normalizedEmail
                              then map_set normalizedEmail registeredName (r_emailToName acc)
                              else r_emailToName acc);
                     rounds = (if \<not> map_has (r_rounds acc) roundId
                               then map_set roundId [] (r_rounds acc) else r_rounds acc)
                 in acc\<lparr>r_rounds := addToRound roundId normalizedEmail rounds,
                        r_emailToName := names\<rparr>))
      | _ \<Rightarrow>
          acc\<lparr>r_errors := r_errors acc
                 @ [''Row '' @ showNat rowNum @ '': Missing round_id or email column'']\<rparr>)"

fun parseRowBasedLoop :: "csvRow list \<Rightarrow> nat \<Rightarrow> RoundsResult \<Rightarrow> RoundsResult" where
  "parseRowBasedLoop [] i acc = acc"
| "parseRowBasedLoop (row # rows) i acc =
     parseRowBasedLoop rows (i + 1) (parseRowBasedRow row (i + 2) acc)"

definition parseRowBased :: "csvRow list \<Rightarrow> RoundsResult" where
  "parseRowBased rows =
     parseRowBasedLoop rows 0 \<lparr>r_rounds = [], r_emailToName = [], r_errors = [], r_warnings = []\<rparr>"

text \<open>The conflict test of \<open>parseColumnBased\<close> on a trimmed cell.\<close>

definition isConflict :: "string \<Rightarrow> bool" where
  "isConflict v =
     (v = ''1'' \<or> toLowerCase v = ''true'' \<or> toLowerCase v = ''yes'' \<or> toLowerCase v = ''x'')"

text \<open>The body of the row loop of \<open>parseColumnBased\<close>.\<close>

definition parseColumnBasedRow ::
  "string \<Rightarrow> string option \<Rightarrow> string list \<Rightarrow> csvRow \<Rightarrow> nat \<Rightarrow> RoundsResult \<Rightarrow> RoundsResult" where
  "parseColumnBasedRow emailKey nameKey roundColumns row rowNum acc =
     (let email = trim (cell row emailKey);
          registeredName = (case nameKey of None \<Rightarrow> [] | Some k \<Rightarrow> trim (cell row k))
      in if email = [] then
           warn (''Row '' @ showNat rowNum @ '': Empty email, skipping'') acc
         else if \<not> isValidEmail email then
           warn (''Row '' @ showNat rowNum @ '': Invalid email format '' @ [CHR 0x22]
                 @ email @ [CHR 0x22] @ '', skipping'') acc
         else
           (let normalizedEmail = normalizeEmail email;
                names = (if registeredName \<noteq> []
                         then map_set normalizedEmail registeredName (r_emailToName acc)
                         else r_emailToName acc)
            in acc\<lparr>r_rounds :=
                       fold (\<lambda>roundCol rounds.
                               if isConflict (trim (cell row roundCol))
                               then addToRound roundCol normalizedEmail rounds else rounds)
                            roundColumns (r_rounds acc),
                   r_emailToName := names\<rparr>))"

fun parseColumnBasedLoop ::
  "string \<Rightarrow> string option \<Rightarrow> string list \<Rightarrow> csvRow list \<Rightarrow> nat \<Rightarrow> RoundsResult \<Rightarrow> RoundsResult" where
  "parseColumnBasedLoop emailKey nameKey roundColumns [] i acc = acc"
| "parseColumnBasedLoop emailKey nameKey roundColumns (row # rows) i acc =
     parseColumnBasedLoop emailKey nameKey roundColumns rows (i + 1)
       (parseColumnBasedRow emailKey nameKey roundColumns row (i + 2) acc)"

definition parseColumnBased :: "csvRow list \<Rightarrow> string list \<Rightarrow> RoundsResult" where
  "parseColumnBased rows headers =
     (case findKey ''email'' headers of
        None \<Rightarrow>
          \<lparr>r_rounds = [], r_emailToName = [], r_errors = [''Could not find email column''],
            r_warnings = []\<rparr>
      | Some emailKey \<Rightarrow>
          (let nameKey = findKey ''name'' headers;
               roundColumns = filter (\<lambda>h. h \<noteq> emailKey \<and> Some h \<noteq> nameKey) headers
           in if length roundColumns = 0 then
                \<lparr>r_rounds = [], r_emailToName = [], r_errors = [''No round columns found''],
                  r_warnings = []\<rparr>
              else
                parseColumnBasedLoop emailKey nameKey roundColumns rows 0
                  \<lparr>r_rounds = fold (\<lambda>roundCol rounds. map_set roundCol [] rounds) roundColumns [],
                    r_emailToName = [], r_errors = [], r_warnings = []\<rparr>))"

record ParsedCSV =
  format :: csvFormat
  rounds :: "(string \<times> string list) list"
  csv_emailToName :: "(string \<times> string) list"

record Stats =
  totalRows :: nat
  roundsFound :: nat
  uniqueEmails :: nat

record CSVParseResult =
  success :: bool
  data :: "ParsedCSV option"
  errors :: "string list"
  warnings :: "string list"
  stats :: Stats

text \<open>The header fields and the result of the format's parser, as \<open>parseCSV\<close> computes them.\<close>

definition headersOf :: "PapaResult \<Rightarrow> string list" where
  "headersOf results = (case papa_fields results of None \<Rightarrow> [] | Some headerFields \<Rightarrow> headerFields)"

definition processed :: "PapaResult \<Rightarrow> RoundsResult" where
  "processed results =
     (if detectCSVFormat (headersOf results) = RowBased
      then parseRowBased (papa_data results)
      else parseColumnBased (papa_data results) (headersOf results))"

text \<open>The \<open>complete\<close> callback of \<open>parseCSV\<close>: what the returned promise resolves to.\<close>

definition parseCSVComplete :: "PapaResult \<Rightarrow> CSVParseResult" where
  "parseCSVComplete results =
     (let errors0 =
            map (\<lambda>err. ''Parse error: '' @ papa_message err @ '' at row ''
                        @ (case papa_row err of None \<Rightarrow> ''undefined'' | Some n \<Rightarrow> showNat n))
                (papa_errors results)
      in if length (papa_data results) = 0 then
           \<lparr> success = False, data = None,
             errors = [''CSV file is empty or has no valid data''], warnings = [],
             stats = \<lparr>totalRows = 0, roundsFound = 0, uniqueEmails = 0\<rparr> \<rparr>
         else
           (let headers = headersOf results;
                format0 = detectCSVFormat headers
            in if format0 = Unknown then
                 \<lparr> success = False, data = None,
                   errors = [''Could not determine CSV format. Expected either row-based (round_id,email) or column-based (email,round_1,round_2,...)''],
                   warnings = [],
                   stats = \<lparr>totalRows = length (papa_data results), roundsFound = 0,
                            uniqueEmails = 0\<rparr> \<rparr>
               else
                 (let result = processed results;
                      errors1 = errors0 @ r_errors result;
                      warnings1 = r_warnings result;
                      uniqueEmails0 =
                        fold (\<lambda>(roundId, emails) unique. fold set_add emails unique)
                             (r_rounds result) [];
                      stats0 = \<lparr>totalRows = length (papa_data results),
                                roundsFound = length (r_rounds result),
                                uniqueEmails = length uniqueEmails0\<rparr>
                  in if length (r_rounds result) = 0 then
                       \<lparr> success = False, data = None,
                         errors = [''No valid rounds found in CSV''],
                         warnings = warnings1, stats = stats0 \<rparr>
                     else
                       \<lparr> success = True,
                         data = Some \<lparr>format = format0, rounds = r_rounds result,
                                      csv_emailToName = r_emailToName result\<rparr>,
                         errors = errors1, warnings = warnings1, stats = stats0 \<rparr>)))"

definition parseCSV :: "string \<Rightarrow> CSVParseResult" where
  "parseCSV csvContent = parseCSVComplete (papaParse csvContent)"

text \<open>The text of Scenario B and the samples of the source and of its quick-start guide.\<close>

definition scenarioB :: string where
  "scenarioB = ''email,round_1,round_2'' @ [CHR 0x0A] @ ''alice@example.com,1,0'' @ [CHR 0x0A]
               @ ''bob@example.com,yes,x''"

definition quickstartColumnSample :: string where
  "quickstartColumnSample = ''email,round_1,round_2'' @ [CHR 0x0A] @ ''alice@example.com,1,0''
     @ [CHR 0x0A] @ ''bob@example.com,1,1''"

definition sampleColumnBasedCSV :: string where
  "sampleColumnBasedCSV = ''email,round_1,round_2,round_3'' @ [CHR 0x0A]
     @ ''alice@example.com,1,0,1'' @ [CHR 0x0A] @ ''bob@example.com,1,1,0'' @ [CHR 0x0A]
     @ ''carol@example.com,0,1,0'' @ [CHR 0x0A] @ ''dave@example.com,0,0,1''"

text \<open>A column-based text whose first data row has an invalid email.\<close>

definition skippedRowSample :: string where
  "skippedRowSample = ''email,round_1,round_2,round_3'' @ [CHR 0x0A]
     @ ''not-an-email,1,0,1'' @ [CHR 0x0A] @ ''bob@example.com,1,1,0''"

text \<open>
  The rows that \<open>parseRowBased\<close> does not skip, and the round columns that
  \<open>parseColumnBased\<close> finds in a header.
\<close>

definition rowAccepted :: "csvRow \<Rightarrow> bool" where
  "rowAccepted row =
     (case (findKey ''round'' (map fst row), findKey ''email'' (map fst row)) of
        (Some roundIdKey, Some emailKey) \<Rightarrow>
          trim (cell row roundIdKey) \<noteq> [] \<and> trim (cell row emailKey) \<noteq> []
          \<and> isValidEmail (trim (cell row emailKey))
      | _ \<Rightarrow> False)"

definition roundColumnsOf :: "string list \<Rightarrow> string list" where
  "roundColumnsOf headers =
     (case findKey ''email'' headers of
        None \<Rightarrow> []
      | Some emailKey \<Rightarrow>
          filter (\<lambda>h. h \<noteq> emailKey \<and> Some h \<noteq> findKey ''name'' headers) headers)"

section \<open>Participant matcher\<close>

record ParticipantWithEmail =
  participantUUID :: string
  displayName :: string
  role :: "string option"
  email :: "string option"

record MatchResult =
  matched :: "ParticipantWithEmail list"
  notFound :: "string list"
  noEmail :: "ParticipantWithEmail list"

text \<open>
  The first loop of \<open>matchParticipants\<close>, with its three accumulators \<open>matched\<close>,
  \<open>foundEmails\<close> and \<open>noEmail\<close>. The test \<open>!participant.email\<close> holds for an absent
  email and for the empty string.
\<close>

fun matchLoop ::
  "string list \<Rightarrow> ParticipantWithEmail list \<Rightarrow>
   ParticipantWithEmail list \<times> string list \<times> ParticipantWithEmail list \<Rightarrow>
   ParticipantWithEmail list \<times> string list \<times> ParticipantWithEmail list" where
  "matchLoop conflictEmails [] acc = acc"
| "matchLoop conflictEmails (participant # rest) (matched', foundEmails, noEmail') =
     (case email participant of
        None \<Rightarrow> matchLoop conflictEmails rest (matched', foundEmails, noEmail' @ [participant])
      | Some e \<Rightarrow>
          if e = [] then
            matchLoop conflictEmails rest (matched', foundEmails, noEmail' @ [participant])
          else
            let normalizedEmail = normalizeEmail e
            in if set_has conflictEmails normalizedEmail then
                 matchLoop conflictEmails rest
                   (matched' @ [participant], set_add normalizedEmail foundEmails, noEmail')
               else matchLoop conflictEmails rest (matched', foundEmails, noEmail'))"

definition matchParticipants :: "string list \<Rightarrow> ParticipantWithEmail list \<Rightarrow> MatchResult" where
  "matchParticipants conflictEmails participants =
     (case matchLoop conflictEmails participants ([], [], []) of
        (matched', foundEmails, noEmail') \<Rightarrow>
          \<lparr> matched = matched',
            notFound = filter (\<lambda>email. \<not> set_has foundEmails email) conflictEmails,
            noEmail = noEmail' \<rparr>)"

text \<open>The two tests of the loop body, named for the statements below.\<close>

definition lacksEmail :: "ParticipantWithEmail \<Rightarrow> bool" where
  "lacksEmail p = (email p = None \<or> email p = Some [])"

definition emailIn :: "string list \<Rightarrow> ParticipantWithEmail \<Rightarrow> bool" where
  "emailIn conflictEmails p =
     (case email p of None \<Rightarrow> False
      | Some e \<Rightarrow> e \<noteq> [] \<and> normalizeEmail e \<in> set conflictEmails)"

definition normalizedEmailOf :: "ParticipantWithEmail \<Rightarrow> string" where
  "normalizedEmailOf p = (case email p of None \<Rightarrow> [] | Some e \<Rightarrow> normalizeEmail e)"

section \<open>Waiting room operations\<close>

text \<open>
  The SDK wrappers \<open>moveToWaitingRoom\<close>, \<open>admitFromWaitingRoom\<close> and
  \<open>getWaitingRoomParticipants\<close> catch every error of the provider and resolve to a result
  object; what the provider answers is a parameter of the model. The provider answers one
  call at a time: a call is one step of the computation that awaits it, and when several
  computations have calls in flight, the schedule gives the order in which they are answered.
\<close>

record SdkResult =
  sdk_success :: bool
  sdk_error :: "string option"

record WaitingRoomParticipant =
  wr_participantUUID :: string
  wr_displayName :: string

record WaitingRoomResult =
  wr_success :: bool
  wr_participants :: "WaitingRoomParticipant list option"
  wr_error :: "string option"

record 'p zoom =
  zoom_moveToWaitingRoom :: "string \<Rightarrow> 'p \<Rightarrow> SdkResult \<times> 'p"
  zoom_admitFromWaitingRoom :: "string \<Rightarrow> 'p \<Rightarrow> SdkResult \<times> 'p"
  zoom_getWaitingRoomParticipants :: "'p \<Rightarrow> WaitingRoomResult \<times> 'p"

definition moveToWaitingRoom :: "'p zoom \<Rightarrow> string \<Rightarrow> ('p, 'u) world \<Rightarrow> SdkResult \<times> ('p, 'u) world" where
  "moveToWaitingRoom sdk uuid w =
     (case zoom_moveToWaitingRoom sdk uuid (provider w) of
        (result, p') \<Rightarrow> (result, w\<lparr>provider := p', calls := calls w @ [MoveCall uuid]\<rparr>))"

definition admitFromWaitingRoom :: "'p zoom \<Rightarrow> string \<Rightarrow> ('p, 'u) world \<Rightarrow> SdkResult \<times> ('p, 'u) world" where
  "admitFromWaitingRoom sdk uuid w =
     (case zoom_admitFromWaitingRoom sdk uuid (provider w) of
        (result, p') \<Rightarrow> (result, w\<lparr>provider := p', calls := calls w @ [AdmitCall uuid]\<rparr>))"

definition getWaitingRoomParticipants :: "'p zoom \<Rightarrow> ('p, 'u) world \<Rightarrow> WaitingRoomResult \<times> ('p, 'u) world" where
  "getWaitingRoomParticipants sdk w =
     (case zoom_getWaitingRoomParticipants sdk (provider w) of
        (result, p') \<Rightarrow> (result, w\<lparr>provider := p', calls := calls w @ [WaitingRoomListCall]\<rparr>))"

text \<open>
  A progress callback, \<open>(completed, total) => void\<close>, updates the user interface (the
  callers pass \<open>setProgress\<close>); it issues no SDK call.
\<close>

definition onUi :: "(nat \<Rightarrow> nat \<Rightarrow> 'u \<Rightarrow> 'u) \<Rightarrow> nat \<Rightarrow> nat \<Rightarrow> ('p, 'u) world \<Rightarrow> ('p, 'u) world" where
  "onUi callback completed totalItems w = w\<lparr>ui := callback completed totalItems (ui w)\<rparr>"

record OperationResult =
  op_participantUUID :: string
  op_success :: bool
  op_error :: "string option"
  retryCount :: nat

definition CONCURRENCY_LIMIT :: nat where "CONCURRENCY_LIMIT = 5"
definition MAX_RETRIES :: nat where "MAX_RETRIES = 3"
definition BASE_DELAY :: nat where "BASE_DELAY = 300"

text \<open>\<open>x || fallback\<close> for an optional string: the fallback when \<open>x\<close> is absent or empty.\<close>

fun orElse :: "string option \<Rightarrow> string \<Rightarrow> string" where
  "orElse None fallback = fallback"
| "orElse (Some s) fallback = (if s = [] then fallback else s)"

text \<open>The function retried by \<open>moveParticipantsToWaitingRoom\<close>.\<close>

definition moveAttempt :: "'p zoom \<Rightarrow> string \<Rightarrow> (('p, 'u) world, thrown + unit) task" where
  "moveAttempt sdk uuid =
     bindTask (await (moveToWaitingRoom sdk uuid)) (\<lambda>result.
       if \<not> sdk_success result
       then Done (Inl (Error (orElse (sdk_error result) ''Failed to move participant'')))
       else Done (Inr ()))"

text \<open>
  \<open>processParticipant\<close> of \<open>moveParticipantsToWaitingRoom\<close>; \<open>retryCount0\<close> is its local
  variable \<open>retryCount\<close>, which is initialised and never assigned again.
\<close>

definition moveProcessParticipant ::
  "'p zoom \<Rightarrow> ParticipantWithEmail \<Rightarrow> (('p, 'u) world, OperationResult) task" where
  "moveProcessParticipant sdk participant =
     (let retryCount0 = 0
      in bindTask (retryWithBackoff (moveAttempt sdk (participantUUID participant))
                     MAX_RETRIES BASE_DELAY) (\<lambda>outcome.
           case outcome of
             Inr u \<Rightarrow>
               Done \<lparr> op_participantUUID = participantUUID participant, op_success = True,
                      op_error = None, retryCount = retryCount0 \<rparr>
           | Inl err \<Rightarrow>
               Done \<lparr> op_participantUUID = participantUUID participant, op_success = False,
                      op_error = Some (messageOr err ''Unknown error''),
                      retryCount = MAX_RETRIES \<rparr>))"

text \<open>
  The batches. \<open>schedules\<close> is not an argument of the source functions: it is the order
  in which their environment lets the processors of each chunk proceed.
\<close>

definition moveParticipantsToWaitingRoom ::
  "'p zoom \<Rightarrow> ParticipantWithEmail list \<Rightarrow> (nat \<Rightarrow> nat \<Rightarrow> 'u \<Rightarrow> 'u) option \<Rightarrow>
   nat list list \<Rightarrow> ('p, 'u) world \<Rightarrow> (OperationResult list \<times> ('p, 'u) world) option" where
  "moveParticipantsToWaitingRoom sdk participants onProgress schedules w =
     processBatch participants (moveProcessParticipant sdk) CONCURRENCY_LIMIT
       (map_option onUi onProgress) schedules w"

definition admitAttempt :: "'p zoom \<Rightarrow> string \<Rightarrow> (('p, 'u) world, thrown + unit) task" where
  "admitAttempt sdk uuid =
     bindTask (await (admitFromWaitingRoom sdk uuid)) (\<lambda>result.
       if \<not> sdk_success result
       then Done (Inl (Error (orElse (sdk_error result) ''Failed to admit participant'')))
       else Done (Inr ()))"

text \<open>
  \<open>processParticipant\<close> of \<open>admitParticipantsFromWaitingRoom\<close>; \<open>waitingRoomUUIDs\<close> is the
  set built once before the batch.
\<close>

definition admitProcessParticipant ::
  "'p zoom \<Rightarrow> string list \<Rightarrow> string \<Rightarrow> (('p, 'u) world, OperationResult) task" where
  "admitProcessParticipant sdk waitingRoomUUIDs uuid =
     (if \<not> set_has waitingRoomUUIDs uuid then
        Done \<lparr> op_participantUUID = uuid, op_success = False,
               op_error = Some ''Participant not in waiting room (may have left meeting)'',
               retryCount = 0 \<rparr>
      else
        (let retryCount0 = 0
         in bindTask (retryWithBackoff (admitAttempt sdk uuid) MAX_RETRIES BASE_DELAY)
              (\<lambda>outcome.
                 case outcome of
                   Inr u \<Rightarrow>
                     Done \<lparr> op_participantUUID = uuid, op_success = True,
                            op_error = None, retryCount = retryCount0 \<rparr>
                 | Inl err \<Rightarrow>
                     Done \<lparr> op_participantUUID = uuid, op_success = False,
                            op_error = Some (messageOr err ''Unknown error''),
                            retryCount = MAX_RETRIES \<rparr>)))"

definition admitParticipantsFromWaitingRoom ::
  "'p zoom \<Rightarrow> string list \<Rightarrow> (nat \<Rightarrow> nat \<Rightarrow> 'u \<Rightarrow> 'u) option \<Rightarrow>
   nat list list \<Rightarrow> ('p, 'u) world \<Rightarrow> (OperationResult list \<times> ('p, 'u) world) option" where
  "admitParticipantsFromWaitingRoom sdk participantUUIDs onProgress schedules w =
     (case getWaitingRoomParticipants sdk w of
        (waitingRoomResult, w') \<Rightarrow>
          (let waitingRoomUUIDs =
                 new_Set (case wr_participants waitingRoomResult of
                            None \<Rightarrow> []
                          | Some ps \<Rightarrow> map wr_participantUUID ps)
           in processBatch participantUUIDs (admitProcessParticipant sdk waitingRoomUUIDs)
                CONCURRENCY_LIMIT (map_option onUi onProgress) schedules w'))"

text \<open>
  The membership set that \<open>admitParticipantsFromWaitingRoom\<close> builds from its one call of
  \<open>getWaitingRoomParticipants\<close> in world \<open>w\<close>, and the result it returns for a
  participant outside that set.
\<close>

definition waitingRoomSnapshot :: "'p zoom \<Rightarrow> ('p, 'u) world \<Rightarrow> string list" where
  "waitingRoomSnapshot sdk w =
     new_Set (case wr_participants (fst (getWaitingRoomParticipants sdk w)) of
                None \<Rightarrow> []
              | Some ps \<Rightarrow> map wr_participantUUID ps)"

definition notInWaitingRoom :: "string \<Rightarrow> OperationResult" where
  "notInWaitingRoom uuid =
     \<lparr> op_participantUUID = uuid, op_success = False,
        op_error = Some ''Participant not in waiting room (may have left meeting)'',
        retryCount = 0 \<rparr>"

text \<open>The call log of \<open>w'\<close> extends that of \<open>w\<close> by calls from \<open>A\<close> only.\<close>

definition callsGrow :: "sdkCall set \<Rightarrow> ('p, 'u) world \<Rightarrow> ('p, 'u) world \<Rightarrow> bool" where
  "callsGrow A w w' = (\<exists>cs. calls w' = calls w @ cs \<and> set cs \<subseteq> A)"

subsection \<open>A scripted provider\<close>

text \<open>
  A provider for the examples: its state counts the move and admit calls it has answered;
  it rejects the first \<open>k\<close> of them with the message \<open>busy\<close> and accepts every later
  one; the waiting room it reports is fixed.
\<close>

definition flakyZoom :: "nat \<Rightarrow> WaitingRoomParticipant list \<Rightarrow> nat zoom" where
  "flakyZoom k waiting =
     \<lparr> zoom_moveToWaitingRoom =
         (\<lambda>uuid n. (if n < k then \<lparr>sdk_success = False, sdk_error = Some ''busy''\<rparr>
                     else \<lparr>sdk_success = True, sdk_error = None\<rparr>, Suc n)),
       zoom_admitFromWaitingRoom =
         (\<lambda>uuid n. (if n < k then \<lparr>sdk_success = False, sdk_error = Some ''busy''\<rparr>
                     else \<lparr>sdk_success = True, sdk_error = None\<rparr>, Suc n)),
       zoom_getWaitingRoomParticipants =
         (\<lambda>n. (\<lparr>wr_success = True, wr_participants = Some waiting, wr_error = None\<rparr>, n)) \<rparr>"

definition world0 :: "(nat, unit) world" where
  "world0 = \<lparr>provider = 0, ui = (), slept = [], calls = []\<rparr>"

definition alice :: ParticipantWithEmail where
  "alice = \<lparr>participantUUID = ''p1'', displayName = ''Alice'', role = None, email = Some ''Alice@Example.com''\<rparr>"

definition bob :: ParticipantWithEmail where
  "bob = \<lparr>participantUUID = ''p2'', displayName = ''Bob'', role = None, email = None\<rparr>"

definition carol :: ParticipantWithEmail where
  "carol = \<lparr>participantUUID = ''p3'', displayName = ''Carol'', role = None, email = Some ''carol@example.com''\<rparr>"

section \<open>Application state and its persistence (store)\<close>

record RoundState =
  roundId :: string
  movedParticipants :: "string list"
  startedAt :: "nat option"
  endedAt :: "nat option"
  movedCount :: nat
  admittedCount :: nat

datatype ActionType =
  move_to_waiting_room | admit_from_waiting_room | parse_csv | start_round | end_round

datatype ActionStatus = StatusPending | StatusSuccess | StatusFailed | StatusSkipped

record ActionLogEntry =
  log_id :: string
  log_timestamp :: nat
  log_sessionId :: string
  log_type :: ActionType
  log_roundId :: "string option"
  log_participantUUID :: "string option"
  log_displayName :: "string option"
  log_email :: "string option"
  log_status :: ActionStatus
  log_error :: "string option"
  log_retryCount :: "nat option"

record AppState =
  sessionId :: string
  parsedRounds :: "(string \<times> string list) list"
  emailToName :: "(string \<times> string) list"
  activeRounds :: "(string \<times> RoundState) list"
  actionLog :: "ActionLogEntry list"
  selectedRoundId :: "string option"
  isProcessing :: bool
  fallbackMode :: bool
  cachedParticipants :: "ParticipantWithEmail list option"
  lastEmailFetchTime :: "nat option"
  emailOverrides :: "(string \<times> string) list"

text \<open>
  The persisted document (\<open>PersistedState\<close>): its three \<open>Record\<close>s are plain objects, its
  sets are arrays.
\<close>

record PersistedRound =
  p_movedParticipants :: "string list"
  p_startedAt :: "nat option"
  p_endedAt :: "nat option"
  p_movedCount :: nat
  p_admittedCount :: nat

record PersistedState =
  p_sessionId :: string
  p_parsedRounds :: "(string \<times> string list) list"
  p_emailToName :: "(string \<times> string) list"
  p_activeRounds :: "(string \<times> PersistedRound) list"
  p_selectedRoundId :: "string option"
  lastUpdated :: nat

text \<open>
  A JSON text is represented by the document it denotes: \<open>JSON.stringify\<close> leaves out the
  properties whose value is \<open>undefined\<close> (here \<open>None\<close>), \<open>JSON.parse\<close> reads a missing
  property as \<open>undefined\<close>, and both keep strings, integers, \<open>null\<close>, arrays and the order of
  the keys of an object.
\<close>

type_synonym jsonText = PersistedState

definition JSON_stringify :: "PersistedState \<Rightarrow> jsonText" where
  "JSON_stringify document = document"

definition JSON_parse :: "jsonText \<Rightarrow> PersistedState" where
  "JSON_parse jsonText = jsonText"

text \<open>
  The store and what it runs in: the state held by the store, the item of \<open>localStorage\<close>
  under \<open>STORAGE_KEY\<close>, whether \<open>localStorage\<close> works (when it does not, \<open>getItem\<close> and
  \<open>setItem\<close> throw, and the source catches the error), and the values that the successive
  calls of \<open>Date.now()\<close> and \<open>generateUUID()\<close> return.
\<close>

record store =
  app :: AppState
  localStorage :: "jsonText option"
  storageWorks :: bool
  clock :: "nat \<Rightarrow> nat"
  clockReads :: nat
  uuidSource :: "nat \<Rightarrow> string"
  uuidReads :: nat

definition Date_now :: "store \<Rightarrow> nat \<times> store" where
  "Date_now s = (clock s (clockReads s), s\<lparr>clockReads := clockReads s + 1\<rparr>)"

definition generateUUID :: "store \<Rightarrow> string \<times> store" where
  "generateUUID s = (uuidSource s (uuidReads s), s\<lparr>uuidReads := uuidReads s + 1\<rparr>)"

text \<open>What \<open>loadPersistedState\<close> returns: a \<open>Partial<AppState>\<close> with these five fields.\<close>

record LoadedState =
  l_sessionId :: string
  l_parsedRounds :: "(string \<times> string list) list"
  l_emailToName :: "(string \<times> string) list"
  l_activeRounds :: "(string \<times> RoundState) list"
  l_selectedRoundId :: "string option"

definition loadPersistedState :: "store \<Rightarrow> LoadedState option" where
  "loadPersistedState s =
     (if \<not> storageWorks s then None
      else case localStorage s of
             None \<Rightarrow> None
           | Some stored \<Rightarrow>
               (let parsed = JSON_parse stored
                in Some
                  \<lparr> l_sessionId = p_sessionId parsed,
                    l_parsedRounds =
                      fold (\<lambda>(rid, emails) m. map_set rid (new_Set emails) m)
                           (p_parsedRounds parsed) [],
                    l_emailToName =
                      fold (\<lambda>(email, name) m. map_set email name m) (p_emailToName parsed) [],
                    l_activeRounds =
                      fold (\<lambda>(rid, state) m.
                              map_set rid
                                \<lparr> roundId = rid,
                                  movedParticipants = new_Set (p_movedParticipants state),
                                  startedAt = p_startedAt state,
                                  endedAt = p_endedAt state,
                                  movedCount = p_movedCount state,
                                  admittedCount = p_admittedCount state \<rparr> m)
                           (p_activeRounds parsed) [],
                    l_selectedRoundId = p_selectedRoundId parsed \<rparr>))"

text \<open>\<open>saveState(state)\<close>; the maps are walked in insertion order.\<close>

definition saveState :: "AppState \<Rightarrow> store \<Rightarrow> store" where
  "saveState state s =
     (let parsedRounds0 =
            fold (\<lambda>(rid, emails) obj. obj_set rid emails obj) (parsedRounds state) [];
          emailToName0 =
            fold (\<lambda>(email, name) obj. obj_set email name obj) (emailToName state) [];
          activeRounds0 =
            fold (\<lambda>(rid, roundState) obj.
                    obj_set rid
                      \<lparr> p_movedParticipants = movedParticipants roundState,
                        p_startedAt = startedAt roundState,
                        p_endedAt = endedAt roundState,
                        p_movedCount = movedCount roundState,
                        p_admittedCount = admittedCount roundState \<rparr> obj)
                 (activeRounds state) []
      in case Date_now s of
           (now, s') \<Rightarrow>
             (let toStore =
                    \<lparr> p_sessionId = sessionId state,
                      p_parsedRounds = parsedRounds0,
                      p_emailToName = emailToName0,
                      p_activeRounds = activeRounds0,
                      p_selectedRoundId = selectedRoundId state,
                      lastUpdated = now \<rparr>
              in if storageWorks s' then s'\<lparr>localStorage := Some (JSON_stringify toStore)\<rparr>
                 else s'))"

subsection \<open>Actions of the store\<close>

text \<open>\<open>set({ parsedRounds: rounds }); saveState(get())\<close> and its siblings.\<close>

definition setParsedRounds :: "(string \<times> string list) list \<Rightarrow> store \<Rightarrow> store" where
  "setParsedRounds newRounds s =
     (let s' = s\<lparr>app := (app s)\<lparr>parsedRounds := newRounds\<rparr>\<rparr> in saveState (app s') s')"

definition setEmailToName :: "(string \<times> string) list \<Rightarrow> store \<Rightarrow> store" where
  "setEmailToName names s =
     (let s' = s\<lparr>app := (app s)\<lparr>emailToName := names\<rparr>\<rparr> in saveState (app s') s')"

definition setSelectedRoundId :: "string option \<Rightarrow> store \<Rightarrow> store" where
  "setSelectedRoundId rid s =
     (let s' = s\<lparr>app := (app s)\<lparr>selectedRoundId := rid\<rparr>\<rparr> in saveState (app s') s')"

text \<open>
  \<open>addActionLog(entry)\<close>: the entry with a fresh \<open>id\<close>, the time and the session; the three
  fields of the argument are overwritten.
\<close>

definition addActionLog :: "ActionLogEntry \<Rightarrow> store \<Rightarrow> store" where
  "addActionLog entry s =
     (case generateUUID s of
        (uuid, s1) \<Rightarrow>
          (case Date_now s1 of
             (now, s2) \<Rightarrow>
               (let newEntry = entry\<lparr>log_id := uuid, log_timestamp := now,
                                      log_sessionId := sessionId (app s2)\<rparr>
                in s2\<lparr>app := (app s2)\<lparr>actionLog := actionLog (app s2) @ [newEntry]\<rparr>\<rparr>)))"

text \<open>An entry \<open>{ type, roundId, status: 'success' }\<close>, before \<open>addActionLog\<close> completes it.\<close>

definition roundEntry :: "ActionType \<Rightarrow> string \<Rightarrow> ActionLogEntry" where
  "roundEntry actionType rid =
     \<lparr> log_id = [], log_timestamp = 0, log_sessionId = [], log_type = actionType,
       log_roundId = Some rid, log_participantUUID = None, log_displayName = None,
       log_email = None, log_status = StatusSuccess, log_error = None,
       log_retryCount = None \<rparr>"

text \<open>
  \<open>activeRounds.get(roundId)\<close> followed by assignments to the fields of the object it
  returns: the record stored under the key changes in place.
\<close>

definition map_modify :: "'k \<Rightarrow> ('v \<Rightarrow> 'v) \<Rightarrow> ('k \<times> 'v) list \<Rightarrow> ('k \<times> 'v) list" where
  "map_modify k f m = map (\<lambda>(k', v). if k' = k then (k', f v) else (k', v)) m"

definition startRound :: "string \<Rightarrow> store \<Rightarrow> store" where
  "startRound rid s =
     (let rounds0 = activeRounds (app s);
          (rounds1, s1) =
            (if \<not> map_has rounds0 rid then
               (case Date_now s of
                  (now, s') \<Rightarrow>
                    (map_set rid
                       \<lparr> roundId = rid, movedParticipants = [], startedAt = Some now,
                         endedAt = None, movedCount = 0, admittedCount = 0 \<rparr> rounds0, s'))
             else
               (case Date_now s of
                  (now, s') \<Rightarrow>
                    (map_modify rid (\<lambda>roundState. roundState\<lparr>startedAt := Some now,
                                                              endedAt := None\<rparr>) rounds0, s')));
          s2 = s1\<lparr>app := (app s1)\<lparr>activeRounds := rounds1\<rparr>\<rparr>
      in addActionLog (roundEntry start_round rid) (saveState (app s2) s2))"

definition endRound :: "string \<Rightarrow> store \<Rightarrow> store" where
  "endRound rid s =
     (let rounds0 = activeRounds (app s)
      in addActionLog (roundEntry end_round rid)
           (case map_get rounds0 rid of
              None \<Rightarrow> s
            | Some roundState \<Rightarrow>
                (case Date_now s of
                   (now, s1) \<Rightarrow>
                     (let rounds1 = map_modify rid (\<lambda>roundState. roundState\<lparr>endedAt := Some now\<rparr>)
                                      rounds0;
                          s2 = s1\<lparr>app := (app s1)\<lparr>activeRounds := rounds1\<rparr>\<rparr>
                      in saveState (app s2) s2))))"

definition addMovedParticipant :: "string \<Rightarrow> string \<Rightarrow> store \<Rightarrow> store" where
  "addMovedParticipant rid uuid s =
     (let rounds0 = activeRounds (app s)
      in if \<not> map_has rounds0 rid then
           (case Date_now s of
              (now, s1) \<Rightarrow>
                (let s2 = s1\<lparr>app := (app s1)\<lparr>activeRounds :=
                            map_set rid
                              \<lparr> roundId = rid, movedParticipants = new_Set [uuid],
                                startedAt = Some now, endedAt = None, movedCount = 0,
                                admittedCount = 0 \<rparr> rounds0\<rparr>\<rparr>
                 in saveState (app s2) s2))
         else
           (let s2 = s\<lparr>app := (app s)\<lparr>activeRounds :=
                       map_modify rid
                         (\<lambda>roundState. roundState\<lparr>movedParticipants :=
                                           set_add uuid (movedParticipants roundState)\<rparr>)
                         rounds0\<rparr>\<rparr>
            in saveState (app s2) s2))"

definition updateRoundStats :: "string \<Rightarrow> nat \<Rightarrow> nat \<Rightarrow> store \<Rightarrow> store" where
  "updateRoundStats rid moved admitted s =
     (case map_get (activeRounds (app s)) rid of
        None \<Rightarrow> s
      | Some roundState \<Rightarrow>
          (let s2 = s\<lparr>app := (app s)\<lparr>activeRounds :=
                      map_modify rid
                        (\<lambda>roundState. roundState\<lparr>movedCount := moved, admittedCount := admitted\<rparr>)
                        (activeRounds (app s))\<rparr>\<rparr>
           in saveState (app s2) s2))"

definition getMovedParticipants :: "string \<Rightarrow> store \<Rightarrow> string list" where
  "getMovedParticipants rid s =
     (case map_get (activeRounds (app s)) rid of
        None \<Rightarrow> []
      | Some roundState \<Rightarrow> movedParticipants roundState)"

subsection \<open>Example stores\<close>

text \<open>
  The state of a fresh session, and a store that holds it with nothing persisted, whose
  clock reads 1000, 1001, ... and whose generated identifiers are all \<open>id\<close>.
\<close>

definition initialApp :: AppState where
  "initialApp =
     \<lparr> sessionId = ''session'', parsedRounds = [], emailToName = [], activeRounds = [],
       actionLog = [], selectedRoundId = None, isProcessing = False, fallbackMode = False,
       cachedParticipants = None, lastEmailFetchTime = None, emailOverrides = [] \<rparr>"

definition store0 :: store where
  "store0 =
     \<lparr> app = initialApp, localStorage = None, storageWorks = True,
       clock = (\<lambda>n. 1000 + n), clockReads = 0, uuidSource = (\<lambda>n. ''id''), uuidReads = 0 \<rparr>"

text \<open>
  The store after the round \<open>round_1\<close> was started and the participants \<open>p1\<close> and \<open>p2\<close>
  were moved.
\<close>

definition activeStore :: store where
  "activeStore =
     addMovedParticipant ''round_1'' ''p2''
       (addMovedParticipant ''round_1'' ''p1'' (startRound ''round_1'' store0))"

text \<open>The round-state records that the store holds for a round.\<close>

definition recordsFor :: "string \<Rightarrow> store \<Rightarrow> (string \<times> RoundState) list" where
  "recordsFor rid s = filter (\<lambda>kv. fst kv = rid) (activeRounds (app s))"

text \<open>
  A row-based CSV text with a round named \<open>__proto__\<close>, and the round map it parses to.
\<close>

definition protoCSV :: string where
  "protoCSV = ''round_id,email'' @ [CHR 0x0A] @ ''__proto__,alice@example.com'' @ [CHR 0x0A]
              @ ''round_1,bob@example.com''"

definition protoRounds :: "(string \<times> string list) list" where
  "protoRounds = [(''__proto__'', [''alice@example.com'']), (''round_1'', [''bob@example.com''])]"

text \<open>
  What is compared after a reload: a round state with its moved participants as a set.
  A state is valid when its maps have distinct keys and every round state carries the key
  it is stored under; it is free of \<open>__proto__\<close> when no key of its three maps is that
  string.
\<close>

definition roundContent ::
  "RoundState \<Rightarrow> string \<times> string set \<times> nat option \<times> nat option \<times> nat \<times> nat" where
  "roundContent r =
     (roundId r, set (movedParticipants r), startedAt r, endedAt r, movedCount r, admittedCount r)"

definition validState :: "AppState \<Rightarrow> bool" where
  "validState st =
     (distinct (map fst (parsedRounds st)) \<and> distinct (map fst (emailToName st))
      \<and> distinct (map fst (activeRounds st))
      \<and> list_all (\<lambda>(rid, r). roundId r = rid) (activeRounds st))"

definition protoFree :: "AppState \<Rightarrow> bool" where
  "protoFree st =
     (''__proto__'' \<notin> fst ` set (parsedRounds st) \<and> ''__proto__'' \<notin> fst ` set (emailToName st)
      \<and> ''__proto__'' \<notin> fst ` set (activeRounds st))"

section \<open>Properties of the matcher\<close>

lemma set_set_add: "set (set_add x s) = insert x (set s)"
  by (auto simp: set_add_def)

lemma matchLoop_char:
  "matchLoop c ps (m, f, n) =
     (m @ filter (emailIn c) ps,
      fst (snd (matchLoop c ps (m, f, n))),
      n @ filter lacksEmail ps)
   \<and> set (fst (snd (matchLoop c ps (m, f, n)))) =
       set f \<union> normalizedEmailOf ` set (filter (emailIn c) ps)"
proof (induction ps arbitrary: m f n)
  case Nil
  show ?case by simp
next
  case (Cons p ps)
  show ?case
  proof (cases "email p")
    case None
    then show ?thesis
      using Cons.IH [of m f "n @ [p]"] by (simp add: emailIn_def lacksEmail_def)
  next
    case (Some e)
    show ?thesis
    proof (cases "e = []")
      case True
      then show ?thesis
        using Some Cons.IH [of m f "n @ [p]"] by (simp add: emailIn_def lacksEmail_def)
    next
      case False
      show ?thesis
      proof (cases "normalizeEmail e \<in> set c")
        case True
        then show ?thesis
          using Some False Cons.IH [of "m @ [p]" "set_add (normalizeEmail e) f" n]
          by (simp add: emailIn_def lacksEmail_def set_has_def set_set_add normalizedEmailOf_def)
      next
        case nin: False
        then show ?thesis
          using Some False Cons.IH [of m f n]
          by (simp add: emailIn_def lacksEmail_def set_has_def)
      qed
    qed
  qed
qed

lemma matched_eq: "matched (matchParticipants c ps) = filter (emailIn c) ps"
proof -
  obtain m f n where r: "matchLoop c ps ([], [], []) = (m, f, n)"
    by (cases "matchLoop c ps ([], [], [])") auto
  with matchLoop_char [of c ps "[]" "[]" "[]"] show ?thesis
    by (simp add: matchParticipants_def)
qed

lemma noEmail_eq: "noEmail (matchParticipants c ps) = filter lacksEmail ps"
proof -
  obtain m f n where r: "matchLoop c ps ([], [], []) = (m, f, n)"
    by (cases "matchLoop c ps ([], [], [])") auto
  with matchLoop_char [of c ps "[]" "[]" "[]"] show ?thesis
    by (simp add: matchParticipants_def)
qed

lemma notFound_eq:
  "notFound (matchParticipants c ps) =
     filter (\<lambda>e. e \<notin> normalizedEmailOf ` set (filter (emailIn c) ps)) c"
proof -
  obtain m f n where r: "matchLoop c ps ([], [], []) = (m, f, n)"
    by (cases "matchLoop c ps ([], [], [])") auto
  with matchLoop_char [of c ps "[]" "[]" "[]"]
  have "set f = normalizedEmailOf ` set (filter (emailIn c) ps)" by simp
  with r show ?thesis
    by (simp add: matchParticipants_def set_has_def)
qed

lemma normalizeEmail_Alice: "normalizeEmail ''Alice@Example.com'' = ''alice@example.com''"
  by code_simp

text \<open>
  Claim C7. For every conflict-email set and every participant list, \<open>matchParticipants\<close>
  puts into \<open>noEmail\<close> exactly the participants without an email (absent or empty), in
  their order, and never tries to match them; puts into \<open>matched\<close> exactly the
  participants that have an email whose normalized form is in the conflict set; and puts
  into \<open>notFound\<close> exactly the conflict emails that are the normalized email of no matched
  participant. In particular the conflict set \<open>{alice@example.com}\<close> against \<open>p1\<close> with
  email \<open>Alice@Example.com\<close> and \<open>p2\<close> without email gives \<open>matched = [p1]\<close>,
  \<open>notFound = []\<close>, \<open>noEmail = [p2]\<close>, whatever their names and roles.
\<close>

theorem matchParticipants_partition:
  "noEmail (matchParticipants conflictEmails participants) = filter lacksEmail participants
   \<and> matched (matchParticipants conflictEmails participants)
       = filter (emailIn conflictEmails) participants
   \<and> notFound (matchParticipants conflictEmails participants)
       = filter (\<lambda>e. \<not> (\<exists>p \<in> set (matched (matchParticipants conflictEmails participants)).
                              normalizedEmailOf p = e)) conflictEmails
   \<and> matchParticipants [''alice@example.com'']
         [\<lparr>participantUUID = ''p1'', displayName = n1, role = r1,
            email = Some ''Alice@Example.com''\<rparr>,
          \<lparr>participantUUID = ''p2'', displayName = n2, role = r2, email = None\<rparr>]
       = \<lparr> matched = [\<lparr>participantUUID = ''p1'', displayName = n1, role = r1,
                         email = Some ''Alice@Example.com''\<rparr>],
            notFound = [],
            noEmail = [\<lparr>participantUUID = ''p2'', displayName = n2, role = r2,
                         email = None\<rparr>] \<rparr>"
proof (intro conjI)
  show "noEmail (matchParticipants conflictEmails participants) = filter lacksEmail participants"
    by (rule noEmail_eq)
  show "matched (matchParticipants conflictEmails participants)
       = filter (emailIn conflictEmails) participants"
    by (rule matched_eq)
  have "(\<lambda>e. e \<notin> normalizedEmailOf ` set (filter (emailIn conflictEmails) participants))
        = (\<lambda>e. \<not> (\<exists>p \<in> set (filter (emailIn conflictEmails) participants).
                      normalizedEmailOf p = e))"
    by auto
  then show "notFound (matchParticipants conflictEmails participants)
       = filter (\<lambda>e. \<not> (\<exists>p \<in> set (matched (matchParticipants conflictEmails participants)).
                              normalizedEmailOf p = e)) conflictEmails"
    by (simp add: notFound_eq matched_eq)
  show "matchParticipants [''alice@example.com'']
         [\<lparr>participantUUID = ''p1'', displayName = n1, role = r1,
            email = Some ''Alice@Example.com''\<rparr>,
          \<lparr>participantUUID = ''p2'', displayName = n2, role = r2, email = None\<rparr>]
       = \<lparr> matched = [\<lparr>participantUUID = ''p1'', displayName = n1, role = r1,
                         email = Some ''Alice@Example.com''\<rparr>],
            notFound = [],
            noEmail = [\<lparr>participantUUID = ''p2'', displayName = n2, role = r2,
                         email = None\<rparr>] \<rparr>"
    by (simp add: matchParticipants_def normalizeEmail_Alice set_has_def set_add_def)
qed

text \<open>
  Claim C8. When two participant lists are permutations of one another, the results of
  \<open>matchParticipants\<close> for the same conflict set have the same matched identifiers, the
  same not-found emails and the same no-email identifiers, as sets (and the matched and
  no-email participants agree as multisets).
\<close>

theorem matchParticipants_permutation:
  assumes "mset participants = mset participants'"
  shows "set (map participantUUID (matched (matchParticipants c participants)))
           = set (map participantUUID (matched (matchParticipants c participants')))
         \<and> set (notFound (matchParticipants c participants))
           = set (notFound (matchParticipants c participants'))
         \<and> set (map participantUUID (noEmail (matchParticipants c participants)))
           = set (map participantUUID (noEmail (matchParticipants c participants')))
         \<and> mset (matched (matchParticipants c participants))
           = mset (matched (matchParticipants c participants'))
         \<and> mset (noEmail (matchParticipants c participants))
           = mset (noEmail (matchParticipants c participants'))"
proof -
  have m: "mset (filter (emailIn c) participants) = mset (filter (emailIn c) participants')"
    using assms by (simp add: mset_filter)
  have n: "mset (filter lacksEmail participants) = mset (filter lacksEmail participants')"
    using assms by (simp add: mset_filter)
  have sm: "set (filter (emailIn c) participants) = set (filter (emailIn c) participants')"
    using m by (rule mset_eq_setD)
  have sn: "set (filter lacksEmail participants) = set (filter lacksEmail participants')"
    using n by (rule mset_eq_setD)
  show ?thesis
    using m n sm sn by (simp add: matched_eq noEmail_eq notFound_eq)
qed

theorem matchParticipants_permutation_witness:
  "mset [alice, bob] = mset [bob, alice]
   \<and> set (map participantUUID (matched (matchParticipants [''alice@example.com''] [alice, bob])))
       = set (map participantUUID (matched (matchParticipants [''alice@example.com''] [bob, alice])))
   \<and> set (notFound (matchParticipants [''alice@example.com''] [alice, bob]))
       = set (notFound (matchParticipants [''alice@example.com''] [bob, alice]))
   \<and> set (map participantUUID (noEmail (matchParticipants [''alice@example.com''] [alice, bob])))
       = set (map participantUUID (noEmail (matchParticipants [''alice@example.com''] [bob, alice])))"
proof -
  have perm: "mset [alice, bob] = mset [bob, alice]"
    by (simp add: add.commute)
  from matchParticipants_permutation [OF perm, of "[''alice@example.com'']"] perm
  show ?thesis by blast
qed

section \<open>Properties of the utilities\<close>

text \<open>\<open>isValidEmail\<close> accepts exactly the strings that the regular expression matches.\<close>

lemma emailChar_dot: "emailChar (CHR ''.'')"
  by code_simp

lemma not_emailChar_at: "\<not> emailChar (CHR ''@'')"
  by (simp add: emailChar_def)

lemma isValidEmail_regex: "isValidEmail s = matchesEmailRegex s"
proof
  assume v: "isValidEmail s"
  let ?a = "takeWhile emailChar s"
  from v obtain c0 dom where rest: "dropWhile emailChar s = c0 # dom"
    by (auto simp: isValidEmail_def Let_def split: list.splits)
  from v rest have a: "?a \<noteq> []" and c0: "c0 = CHR ''@''" and alld: "list_all emailChar dom"
    and ex: "list_ex (\<lambda>i. dom ! i = CHR ''.'') [1 ..< length dom - 1]"
    by (auto simp: isValidEmail_def Let_def)
  from ex obtain i where i: "1 \<le> i" "i < length dom - 1" "dom ! i = CHR ''.''"
    by (auto simp: list_ex_iff)
  let ?b = "take i dom" and ?c = "drop (Suc i) dom"
  have dom: "dom = ?b @ ''.'' @ ?c"
    using i id_take_nth_drop [of i dom] by simp
  have s: "s = ?a @ ''@'' @ ?b @ ''.'' @ ?c"
    using takeWhile_dropWhile_id [of emailChar s] rest c0 dom by simp
  have "list_all emailChar ?a"
    by (auto simp: list_all_iff dest: set_takeWhileD)
  moreover have "list_all emailChar ?b" "list_all emailChar ?c"
    using alld by (auto simp: list_all_iff dest: in_set_takeD in_set_dropD)
  moreover have "?b \<noteq> []" "?c \<noteq> []"
    using i by auto
  ultimately show "matchesEmailRegex s"
    using s a unfolding matchesEmailRegex_def by blast
next
  assume "matchesEmailRegex s"
  then obtain a b c where s: "s = a @ ''@'' @ b @ ''.'' @ c"
    and ne: "a \<noteq> []" "b \<noteq> []" "c \<noteq> []"
    and all: "list_all emailChar a" "list_all emailChar b" "list_all emailChar c"
    unfolding matchesEmailRegex_def by blast
  have tw: "takeWhile emailChar s = a"
    using all(1) s not_emailChar_at by (simp add: list_all_iff takeWhile_append2)
  have dw: "dropWhile emailChar s = CHR ''@'' # (b @ ''.'' @ c)"
    using all(1) s not_emailChar_at by (simp add: list_all_iff dropWhile_append2)
  have alld: "list_all emailChar (b @ ''.'' @ c)"
    using all emailChar_dot by simp
  have "Suc 0 \<le> length b" "0 < length c"
    using ne by (simp_all add: Suc_le_eq)
  then have "length b \<in> set [1 ..< length (b @ ''.'' @ c) - 1]"
    by simp
  moreover have "(b @ ''.'' @ c) ! length b = CHR ''.''"
    by simp
  ultimately have "list_ex (\<lambda>i. (b @ ''.'' @ c) ! i = CHR ''.'') [1 ..< length (b @ ''.'' @ c) - 1]"
    unfolding list_ex_iff by blast
  then show "isValidEmail s"
    using tw dw ne alld by (simp add: isValidEmail_def Let_def)
qed

section \<open>Properties of the operation engine\<close>

lemma runTask_resume: "runTask (fst (resume t w)) (snd (resume t w)) = runTask t w"
  by (cases t) simp_all

lemma taskInv_resume:
  assumes "taskInv R Q t" and "\<And>w. R w w"
  shows "taskInv R Q (fst (resume t w)) \<and> R w (snd (resume t w))"
  using assms by (cases t) simp_all

lemma taskInv_runTask:
  assumes "taskInv R Q t"
    and refl: "\<And>w. R w w"
    and trans: "\<And>a b c. R a b \<Longrightarrow> R b c \<Longrightarrow> R a c"
  shows "Q (fst (runTask t w)) \<and> R w (snd (runTask t w))"
  using assms(1)
proof (induction t arbitrary: w)
  case (Done r)
  then show ?case by (simp add: refl)
next
  case (Step effect rest)
  have "R w (effect w)" and "taskInv R Q (rest w)"
    using Step.prems by simp_all
  moreover have "Q (fst (runTask (rest w) (effect w))) \<and> R (effect w) (snd (runTask (rest w) (effect w)))"
    using Step.IH [of "rest w" "effect w"] \<open>taskInv R Q (rest w)\<close> by blast
  ultimately show ?case using trans by auto
qed

lemma taskInv_mono:
  assumes "taskInv R Q t"
    and "\<And>a b. R a b \<Longrightarrow> R' a b"
    and "\<And>r. Q r \<Longrightarrow> Q' r"
  shows "taskInv R' Q' t"
  using assms(1)
proof (induction t)
  case (Done r)
  then show ?case using assms(3) by simp
next
  case (Step effect rest)
  then show ?case using assms(2) by auto
qed

lemma taskInv_bindTask:
  assumes "taskInv R Q t"
    and "\<And>a. Q a \<Longrightarrow> taskInv R Q' (g a)"
  shows "taskInv R Q' (bindTask t g)"
  using assms(1)
proof (induction t)
  case (Done a)
  then show ?case using assms(2) by simp
next
  case (Step effect rest)
  then show ?case by auto
qed

lemma taskInv_await:
  assumes "\<And>w. R w (snd (operation w)) \<and> Q (fst (operation w))"
  shows "taskInv R Q (await operation)"
  using assms by (simp add: await_def)

lemma taskInv_returns:
  assumes "returns t r" and "taskInv R Q t"
  shows "Q r"
  using assms by (induction rule: returns.induct) auto

lemma returns_taskInv:
  assumes "\<And>r. returns t r \<Longrightarrow> Q r"
  shows "taskInv (\<lambda>a b. True) Q t"
  using assms
proof (induction t)
  case (Done r)
  then show ?case by (simp add: returns_Done)
next
  case (Step effect rest)
  have "taskInv (\<lambda>a b. True) Q (rest w)" for w
    using Step.IH [of "rest w"] Step.prems returns_Step [of rest w _ effect] by blast
  then show ?case by simp
qed

lemma settleAll_inv:
  assumes "list_all2 (\<lambda>x t. taskInv R (P x) t) xs tasks"
    and refl: "\<And>w. R w w"
    and trans: "\<And>a b c. R a b \<Longrightarrow> R b c \<Longrightarrow> R a c"
  shows "list_all2 P xs (fst (settleAll tasks w)) \<and> R w (snd (settleAll tasks w))"
  using assms(1)
proof (induction xs tasks arbitrary: w rule: list_all2_induct)
  case Nil
  show ?case by (simp add: refl)
next
  case (Cons x xs t tasks)
  obtain r w' where rt: "runTask t w = (r, w')" by (cases "runTask t w") auto
  obtain rs w'' where st: "settleAll tasks w' = (rs, w'')" by (cases "settleAll tasks w'") auto
  have "P x r" and "R w w'"
    using taskInv_runTask [OF Cons.hyps(1) refl trans, where w = w] rt by simp_all
  moreover have "list_all2 P xs rs" and "R w' w''"
    using Cons.IH [of w'] st by simp_all
  ultimately show ?case using rt st trans by auto
qed

text \<open>
  Whatever the schedule, \<open>Promise.all\<close> yields one result per computation, in their order,
  each a result of its computation, and the world it leaves is reached by steps of the
  computations alone.
\<close>

lemma promiseAll_inv:
  assumes "list_all2 (\<lambda>x t. taskInv R (P x) t) xs tasks"
    and refl: "\<And>w. R w w"
    and trans: "\<And>a b c. R a b \<Longrightarrow> R b c \<Longrightarrow> R a c"
  shows "list_all2 P xs (fst (promiseAll schedule tasks w)) \<and> R w (snd (promiseAll schedule tasks w))"
  using assms(1)
proof (induction schedule arbitrary: tasks w)
  case Nil
  show ?case using settleAll_inv [OF Nil.prems refl trans] by simp
next
  case (Cons n schedule)
  show ?case
  proof (cases "tasks = []")
    case True
    then show ?thesis using Cons.prems by (simp add: refl)
  next
    case False
    let ?i = "n mod length tasks"
    have i: "?i < length tasks" using False by simp
    obtain t' w' where rs: "resume (tasks ! ?i) w = (t', w')"
      by (cases "resume (tasks ! ?i) w") auto
    have "taskInv R (P (xs ! ?i)) (tasks ! ?i)"
      using Cons.prems i by (simp add: list_all2_conv_all_nth)
    from taskInv_resume [OF this refl, where w = w] rs
    have t': "taskInv R (P (xs ! ?i)) t'" and ww': "R w w'" by simp_all
    have "list_all2 (\<lambda>x t. taskInv R (P x) t) xs (tasks[?i := t'])"
      using Cons.prems i t' by (auto simp: list_all2_conv_all_nth nth_list_update)
    from Cons.IH [OF this, of w']
    have "list_all2 P xs (fst (promiseAll schedule (tasks[?i := t']) w'))"
      and "R w' (snd (promiseAll schedule (tasks[?i := t']) w'))" by simp_all
    then show ?thesis using False rs ww' trans by auto
  qed
qed

text \<open>A single computation runs alone under every schedule.\<close>

lemma promiseAll_single:
  "promiseAll schedule [t] w = (case runTask t w of (r, w') \<Rightarrow> ([r], w'))"
proof (induction schedule arbitrary: t w)
  case Nil
  show ?case by (simp split: prod.splits)
next
  case (Cons n schedule)
  obtain t' w' where rs: "resume t w = (t', w')" by (cases "resume t w") auto
  have "runTask t' w' = runTask t w"
    using runTask_resume [of t w] rs by simp
  then show ?case using Cons.IH [of t' w'] rs by simp
qed

lemma processBatchLoop_total:
  assumes pos: "0 < concurrency"
    and step: "\<And>x. taskInv R (P x) (processor x)"
    and refl: "\<And>w. R w w"
    and trans: "\<And>a b c. R a b \<Longrightarrow> R b c \<Longrightarrow> R a c"
    and cb: "\<And>f c t w. onProgress = Some f \<Longrightarrow> R w (f c t w)"
  shows "\<exists>rs w'. processBatchLoop items processor concurrency onProgress schedules i results completed w
            = Some (results @ rs, w') \<and> list_all2 P (drop i items) rs \<and> R w w'"
proof (induction "length items - i" arbitrary: i results completed w schedules rule: less_induct)
  case less
  show ?case
  proof (cases "i < length items")
    case False
    then show ?thesis
      by (subst processBatchLoop.simps) (simp add: refl)
  next
    case True
    let ?chunk = "take concurrency (drop i items)"
    let ?s = "nextSchedule schedules"
    obtain crs w' where pa: "promiseAll ?s (map processor ?chunk) w = (crs, w')"
      by (cases "promiseAll ?s (map processor ?chunk) w") auto
    have "list_all2 (\<lambda>x t. taskInv R (P x) t) ?chunk (map processor ?chunk)"
      using step by (simp add: list_all2_conv_all_nth)
    from promiseAll_inv [OF this refl trans, where schedule = ?s and w = w] pa
    have crs: "list_all2 P ?chunk crs" and ww': "R w w'" by simp_all
    let ?w'' = "(case onProgress of None \<Rightarrow> w'
                 | Some callback \<Rightarrow> callback (completed + length ?chunk) (length items) w')"
    have w'w'': "R w' ?w''"
      using cb refl by (cases onProgress) auto
    have dec: "length items - (i + concurrency) < length items - i"
      using True pos by arith
    from less [OF dec, where results = "results @ crs" and completed = "completed + length ?chunk"
                 and w = ?w'' and schedules = "tl schedules"]
    obtain rs wf where
      rec: "processBatchLoop items processor concurrency onProgress (tl schedules) (i + concurrency)
              (results @ crs) (completed + length ?chunk) ?w'' = Some ((results @ crs) @ rs, wf)"
      and rs: "list_all2 P (drop (i + concurrency) items) rs"
      and w''wf: "R ?w'' wf"
      by blast
    have split: "drop i items = ?chunk @ drop (i + concurrency) items"
      by (metis add.commute append_take_drop_id drop_drop)
    have "list_all2 P (drop i items) (crs @ rs)"
      using crs rs by (subst split) (rule list_all2_appendI)
    moreover have "processBatchLoop items processor concurrency onProgress schedules i results completed w
        = Some (results @ (crs @ rs), wf)"
      using True pa rec by (subst processBatchLoop.simps) (simp add: Let_def)
    moreover have "R w wf"
      using ww' w'w'' w''wf trans by blast
    ultimately show ?thesis by blast
  qed
qed

lemma processBatch_total:
  assumes pos: "0 < concurrency"
    and step: "\<And>x. taskInv R (P x) (processor x)"
    and refl: "\<And>w. R w w"
    and trans: "\<And>a b c. R a b \<Longrightarrow> R b c \<Longrightarrow> R a c"
    and cb: "\<And>f c t w. onProgress = Some f \<Longrightarrow> R w (f c t w)"
  shows "\<exists>rs w'. processBatch items processor concurrency onProgress schedules w = Some (rs, w')
            \<and> list_all2 P items rs \<and> R w w'"
proof -
  have "\<exists>rs w'. processBatchLoop items processor concurrency onProgress schedules 0 [] 0 w
            = Some ([] @ rs, w') \<and> list_all2 P (drop 0 items) rs \<and> R w w'"
    using pos step refl trans cb by (intro processBatchLoop_total) auto
  then show ?thesis by (simp add: processBatch_def)
qed

text \<open>A batch of one item: its processor runs alone, whatever the schedule.\<close>

lemma processBatch_single:
  assumes "0 < concurrency"
  shows "processBatch [x] processor concurrency None schedules w =
           (case runTask (processor x) w of (r, w') \<Rightarrow> Some ([r], w'))"
proof -
  have small: "\<not> concurrency < Suc 0" using assms by simp
  obtain r w' where rt: "runTask (processor x) w = (r, w')"
    by (cases "runTask (processor x) w") auto
  have "processBatchLoop [x] processor concurrency None (tl schedules) (0 + concurrency)
          ([] @ [r]) (0 + length [x]) w' = Some ([r], w')"
    using small by (subst processBatchLoop.simps) simp
  then show ?thesis
    using assms rt unfolding processBatch_def
    by (subst processBatchLoop.simps) (simp add: promiseAll_single)
qed

text \<open>With a chunk size of 0 the loop of \<open>processBatch\<close> never ends on a non-empty list.\<close>

lemma processBatchLoop_stuck:
  assumes "processBatchLoop items processor concurrency onProgress schedules i results completed w = Some y"
  shows "\<not> (concurrency = 0 \<and> i < length items)"
  by (rule processBatchLoop.raw_induct
        [where P = "\<lambda>items processor concurrency onProgress schedules i results completed w y.
                      \<not> (concurrency = 0 \<and> i < length items)", OF _ assms])
     (fastforce simp: Let_def split: if_splits prod.splits)

lemma processBatch_zero_concurrency:
  "items \<noteq> [] \<Longrightarrow> processBatch items processor 0 onProgress schedules w = None"
  using processBatchLoop_stuck [of items processor 0 onProgress schedules 0 "[]" 0 w]
  by (cases "processBatch items processor 0 onProgress schedules w") (auto simp: processBatch_def)

lemma callsGrow_refl: "callsGrow A w w"
  by (simp add: callsGrow_def)

lemma callsGrow_trans: "callsGrow A a b \<Longrightarrow> callsGrow A b c \<Longrightarrow> callsGrow A a c"
  by (auto simp: callsGrow_def)

lemma callsGrow_sleep: "callsGrow A w (sleep ms w)"
  by (simp add: callsGrow_def sleep_def)

lemma callsGrow_onUi: "callsGrow A w (onUi f c t w)"
  by (simp add: callsGrow_def onUi_def)

lemma callsGrow_mono: "callsGrow A w w' \<Longrightarrow> A \<subseteq> B \<Longrightarrow> callsGrow B w w'"
  by (auto simp: callsGrow_def)

text \<open>
  The retry loop takes no step but those of \<open>fn\<close> and its own sleeps, at every attempt.
\<close>

lemma retryLoop_inv:
  assumes fn: "taskInv R (\<lambda>outcome. True) fn"
    and sl: "\<And>ms w. R w (sleep ms w)"
  shows "taskInv R (\<lambda>outcome. True) (retryLoop fn maxRetries baseDelay attempt lastError)"
  using fn
proof (induction fn maxRetries baseDelay attempt lastError rule: retryLoop.induct)
  case (1 fn maxRetries baseDelay attempt lastError)
  note unfold = retryLoop.simps [of fn maxRetries baseDelay attempt lastError]
  show ?case
  proof (cases "attempt \<le> maxRetries")
    case False
    then show ?thesis by (simp add: unfold)
  next
    case True
    have "taskInv R (\<lambda>outcome. True)
            (case outcome of
               Inr v \<Rightarrow> Done (Inr v)
             | Inl err \<Rightarrow>
                 if attempt < maxRetries
                 then bindTask (await (\<lambda>w. ((), sleep (baseDelay * 3 ^ attempt) w)))
                        (\<lambda>u. retryLoop fn maxRetries baseDelay (attempt + 1) (Some err))
                 else retryLoop fn maxRetries baseDelay (attempt + 1) (Some err))" for outcome
    proof (cases outcome)
      case (Inr v)
      then show ?thesis by simp
    next
      case (Inl err)
      have again: "taskInv R (\<lambda>outcome. True) (retryLoop fn maxRetries baseDelay (attempt + 1) (Some err))"
      proof (cases "attempt < maxRetries")
        case True
        show ?thesis using "1.IH"(1) [OF \<open>attempt \<le> maxRetries\<close> True "1.prems"] .
      next
        case False
        show ?thesis using "1.IH"(2) [OF \<open>attempt \<le> maxRetries\<close> False "1.prems"] .
      qed
      have "taskInv R (\<lambda>u. True) (await (\<lambda>w. ((), sleep (baseDelay * 3 ^ attempt) w)))"
        by (rule taskInv_await) (simp add: sl)
      then have "taskInv R (\<lambda>outcome. True)
          (bindTask (await (\<lambda>w. ((), sleep (baseDelay * 3 ^ attempt) w)))
             (\<lambda>u. retryLoop fn maxRetries baseDelay (attempt + 1) (Some err)))"
        by (rule taskInv_bindTask) (rule again)
      then show ?thesis using Inl again by simp
    qed
    then have "taskInv R (\<lambda>outcome. True)
        (bindTask fn (\<lambda>outcome.
            case outcome of
              Inr v \<Rightarrow> Done (Inr v)
            | Inl err \<Rightarrow>
                if attempt < maxRetries
                then bindTask (await (\<lambda>w. ((), sleep (baseDelay * 3 ^ attempt) w)))
                       (\<lambda>u. retryLoop fn maxRetries baseDelay (attempt + 1) (Some err))
                else retryLoop fn maxRetries baseDelay (attempt + 1) (Some err)))"
      using "1.prems" by (intro taskInv_bindTask [where Q = "\<lambda>outcome. True"]) auto
    then show ?thesis using True by (simp add: unfold)
  qed
qed

lemma admitAttempt_inv: "taskInv (callsGrow {AdmitCall uuid}) (\<lambda>outcome. True) (admitAttempt sdk uuid)"
  unfolding admitAttempt_def
  by (rule taskInv_bindTask [where Q = "\<lambda>result. True"], rule taskInv_await)
     (auto simp: admitFromWaitingRoom_def callsGrow_def split: prod.splits)

lemma moveAttempt_inv: "taskInv (callsGrow {MoveCall uuid}) (\<lambda>outcome. True) (moveAttempt sdk uuid)"
  unfolding moveAttempt_def
  by (rule taskInv_bindTask [where Q = "\<lambda>result. True"], rule taskInv_await)
     (auto simp: moveToWaitingRoom_def callsGrow_def split: prod.splits)

text \<open>
  The processor of an admit batch: it issues no call but admit calls for its own
  participant, and none at all for a participant outside the membership set, whom it
  answers with the \<open>not in waiting room\<close> failure.
\<close>

lemma admitProcessParticipant_inv:
  "taskInv (callsGrow (AdmitCall ` set snap))
     (\<lambda>r. (uuid \<notin> set snap \<longrightarrow> r = notInWaitingRoom uuid) \<and> op_participantUUID r = uuid)
     (admitProcessParticipant sdk snap uuid)"
proof (cases "uuid \<in> set snap")
  case False
  then show ?thesis
    by (simp add: admitProcessParticipant_def set_has_def notInWaitingRoom_def)
next
  case True
  have "taskInv (callsGrow {AdmitCall uuid}) (\<lambda>outcome. True)
          (retryWithBackoff (admitAttempt sdk uuid) MAX_RETRIES BASE_DELAY)"
    unfolding retryWithBackoff_def
    by (rule retryLoop_inv) (simp_all add: admitAttempt_inv callsGrow_sleep)
  then have "taskInv (callsGrow (AdmitCall ` set snap)) (\<lambda>outcome. True)
          (retryWithBackoff (admitAttempt sdk uuid) MAX_RETRIES BASE_DELAY)"
    by (rule taskInv_mono) (use True in \<open>auto intro: callsGrow_mono\<close>)
  then show ?thesis
    using True unfolding admitProcessParticipant_def Let_def set_has_def
    by (simp, intro taskInv_bindTask [where Q = "\<lambda>outcome. True"])
       (auto split: sum.splits)
qed

lemma moveProcessParticipant_inv:
  "taskInv (callsGrow {MoveCall (participantUUID p)})
     (\<lambda>r. op_participantUUID r = participantUUID p
          \<and> (op_success r \<longrightarrow> retryCount r = 0)
          \<and> (\<not> op_success r \<longrightarrow> retryCount r = MAX_RETRIES))
     (moveProcessParticipant sdk p)"
proof -
  have "taskInv (callsGrow {MoveCall (participantUUID p)}) (\<lambda>outcome. True)
          (retryWithBackoff (moveAttempt sdk (participantUUID p)) MAX_RETRIES BASE_DELAY)"
    unfolding retryWithBackoff_def
    by (rule retryLoop_inv) (simp_all add: moveAttempt_inv callsGrow_sleep)
  then show ?thesis
    unfolding moveProcessParticipant_def Let_def
    by (intro taskInv_bindTask [where Q = "\<lambda>outcome. True"]) (auto split: sum.splits)
qed

lemma list_all2_map_eq:
  "list_all2 (\<lambda>x r. f r = g x) xs rs \<Longrightarrow> map f rs = map g xs"
  by (induction xs rs rule: list_all2_induct) auto

text \<open>
  Claim C10. \<open>processBatch\<close> returns: for every list, every processor, every positive
  chunk size and every schedule of the processors it yields one result per item, in the
  order of the list, each a result of the processor of that item. Hence
  \<open>moveParticipantsToWaitingRoom\<close> and \<open>admitParticipantsFromWaitingRoom\<close> return, for
  every provider, every outcome of the single operations and every schedule, a list whose
  \<open>participantUUID\<close>s are those of the input, in order.
\<close>

theorem batch_one_result_per_item:
  "(0 < concurrency \<longrightarrow>
      (\<exists>rs w'. processBatch items processor concurrency progress schedules0 w0 = Some (rs, w') \<and>
         list_all2 (\<lambda>item r. returns (processor item) r) items rs))
   \<and> (\<exists>rs w'. moveParticipantsToWaitingRoom sdk participants onProgress schedules w = Some (rs, w') \<and>
         map op_participantUUID rs = map participantUUID participants)
   \<and> (\<exists>rs w'. admitParticipantsFromWaitingRoom sdk uuids onProgress schedules w = Some (rs, w') \<and>
         map op_participantUUID rs = uuids)"
proof (intro conjI impI)
  assume pos: "0 < concurrency"
  have "\<exists>rs w'. processBatch items processor concurrency progress schedules0 w0 = Some (rs, w') \<and>
          list_all2 (\<lambda>item r. returns (processor item) r) items rs \<and> (\<lambda>a b. True) w0 w'"
    by (rule processBatch_total [OF pos]) (simp_all add: returns_taskInv)
  then show "\<exists>rs w'. processBatch items processor concurrency progress schedules0 w0 = Some (rs, w') \<and>
          list_all2 (\<lambda>item r. returns (processor item) r) items rs"
    by blast
next
  have step: "taskInv (\<lambda>a b. True) (\<lambda>r. op_participantUUID r = participantUUID p)
                (moveProcessParticipant sdk p)" for p
    by (rule taskInv_mono [OF moveProcessParticipant_inv]) simp_all
  have "\<exists>rs w'. processBatch participants (moveProcessParticipant sdk) CONCURRENCY_LIMIT
            (map_option onUi onProgress) schedules w = Some (rs, w') \<and>
          list_all2 (\<lambda>p r. op_participantUUID r = participantUUID p) participants rs \<and>
          (\<lambda>a b. True) w w'"
    by (rule processBatch_total) (simp_all add: CONCURRENCY_LIMIT_def step)
  then show "\<exists>rs w'. moveParticipantsToWaitingRoom sdk participants onProgress schedules w = Some (rs, w') \<and>
         map op_participantUUID rs = map participantUUID participants"
    by (auto simp: moveParticipantsToWaitingRoom_def dest: list_all2_map_eq)
next
  obtain res w1 where g: "getWaitingRoomParticipants sdk w = (res, w1)"
    by (cases "getWaitingRoomParticipants sdk w") auto
  let ?snap = "waitingRoomSnapshot sdk w"
  have "\<exists>rs w'. processBatch uuids (admitProcessParticipant sdk ?snap) CONCURRENCY_LIMIT
            (map_option onUi onProgress) schedules w1 = Some (rs, w') \<and>
          list_all2 (\<lambda>u r. op_participantUUID r = id u) uuids rs \<and> (\<lambda>a b. True) w1 w'"
  proof (rule processBatch_total)
    show "0 < CONCURRENCY_LIMIT" by (simp add: CONCURRENCY_LIMIT_def)
    show "taskInv (\<lambda>a b. True) (\<lambda>r. op_participantUUID r = id u)
            (admitProcessParticipant sdk ?snap u)" for u
      by (rule taskInv_mono [OF admitProcessParticipant_inv]) simp_all
  qed simp_all
  then obtain rs w' where
    run: "processBatch uuids (admitProcessParticipant sdk ?snap) CONCURRENCY_LIMIT
            (map_option onUi onProgress) schedules w1 = Some (rs, w')"
    and all: "list_all2 (\<lambda>u r. op_participantUUID r = id u) uuids rs"
    by blast
  have "admitParticipantsFromWaitingRoom sdk uuids onProgress schedules w = Some (rs, w')"
    using g run by (simp add: admitParticipantsFromWaitingRoom_def waitingRoomSnapshot_def)
  moreover have "map op_participantUUID rs = uuids"
    using list_all2_map_eq [OF all] by simp
  ultimately show "\<exists>rs w'. admitParticipantsFromWaitingRoom sdk uuids onProgress schedules w = Some (rs, w') \<and>
         map op_participantUUID rs = uuids"
    by blast
qed

text \<open>
  Three participants in chunks of two, at the provider that rejects its first seven calls,
  the processors of the first chunk taking turns and the second participant being
  answered first each time: the second participant is rejected four times and fails, the
  first one is rejected three times and moved at its fourth call, after the second one has
  finished, and the results still come in the order of the input.
\<close>

lemma batch_out_of_order_run:
  "processBatch [alice, bob, carol] (moveProcessParticipant (flakyZoom 7 [])) 2 None
     [[1, 0, 1, 0, 1, 0, 1, 0, 1, 0, 1, 0, 1, 0]] world0
   = Some ([\<lparr>op_participantUUID = ''p1'', op_success = True, op_error = None, retryCount = 0\<rparr>,
            \<lparr>op_participantUUID = ''p2'', op_success = False, op_error = Some ''busy'', retryCount = 3\<rparr>,
            \<lparr>op_participantUUID = ''p3'', op_success = True, op_error = None, retryCount = 0\<rparr>],
           \<lparr>provider = 9, ui = (), slept = [300, 300, 900, 900, 2700, 2700],
              calls = [MoveCall ''p2'', MoveCall ''p1'', MoveCall ''p2'', MoveCall ''p1'',
                       MoveCall ''p2'', MoveCall ''p1'', MoveCall ''p2'', MoveCall ''p1'',
                       MoveCall ''p3'']\<rparr>)"
  by code_simp

theorem batch_one_result_per_item_witness:
  "(0::nat) < 2 \<and>
   (\<exists>rs w'. processBatch [alice, bob, carol] (moveProcessParticipant (flakyZoom 7 [])) 2 None
               [[1, 0, 1, 0, 1, 0, 1, 0, 1, 0, 1, 0, 1, 0]] world0 = Some (rs, w') \<and>
      list_all2 (\<lambda>item r. returns (moveProcessParticipant (flakyZoom 7 []) item
                                   :: ((nat, unit) world, OperationResult) task) r)
        [alice, bob, carol] rs \<and>
      map op_participantUUID rs = [''p1'', ''p2'', ''p3''] \<and>
      map op_success rs = [True, False, True])"
proof -
  have pos: "(0::nat) < 2" by simp
  from batch_one_result_per_item
    [of 2 "[alice, bob, carol]" "moveProcessParticipant (flakyZoom 7 [])" None
        "[[1, 0, 1, 0, 1, 0, 1, 0, 1, 0, 1, 0, 1, 0]]" world0 "flakyZoom 7 []" "[]" None "[]" world0 "[]",
     THEN conjunct1, THEN mp, OF pos]
  obtain rs w' where
    run: "processBatch [alice, bob, carol] (moveProcessParticipant (flakyZoom 7 [])) 2 None
               [[1, 0, 1, 0, 1, 0, 1, 0, 1, 0, 1, 0, 1, 0]] world0 = Some (rs, w')"
    and all: "list_all2 (\<lambda>item r. returns (moveProcessParticipant (flakyZoom 7 []) item
                                   :: ((nat, unit) world, OperationResult) task) r)
        [alice, bob, carol] rs"
    by blast
  have ids: "map op_participantUUID rs = [''p1'', ''p2'', ''p3'']"
    and oks: "map op_success rs = [True, False, True]"
    using run unfolding batch_out_of_order_run by auto
  from pos run all ids oks show ?thesis
    by (intro conjI exI) assumption+
qed

text \<open>
  Claim C5. An admit batch returns, and fetches the waiting-room membership with one call,
  its first. A target absent from that membership gets the failed result with the
  \<open>not in waiting room\<close> message and \<open>retryCount = 0\<close>, and no admit call is issued for it,
  whatever the provider would have answered and however the processors of a chunk are
  interleaved.
\<close>

theorem admit_absent_fails_fast:
  "\<exists>rs w' cs.
     admitParticipantsFromWaitingRoom sdk uuids onProgress schedules w = Some (rs, w') \<and>
     length rs = length uuids \<and>
     calls w' = calls w @ WaitingRoomListCall # cs \<and> WaitingRoomListCall \<notin> set cs \<and>
     (\<forall>i < length uuids. uuids ! i \<notin> set (waitingRoomSnapshot sdk w) \<longrightarrow>
        rs ! i = notInWaitingRoom (uuids ! i) \<and> AdmitCall (uuids ! i) \<notin> set cs)"
proof -
  obtain res w1 where g: "getWaitingRoomParticipants sdk w = (res, w1)"
    by (cases "getWaitingRoomParticipants sdk w") auto
  have c1: "calls w1 = calls w @ [WaitingRoomListCall]"
    using g by (auto simp: getWaitingRoomParticipants_def split: prod.splits)
  let ?snap = "waitingRoomSnapshot sdk w"
  let ?P = "\<lambda>uuid r. (uuid \<notin> set ?snap \<longrightarrow> r = notInWaitingRoom uuid)"
  let ?R = "callsGrow (AdmitCall ` set ?snap) :: ('a, 'b) world \<Rightarrow> ('a, 'b) world \<Rightarrow> bool"
  have "\<exists>rs w'. processBatch uuids (admitProcessParticipant sdk ?snap) CONCURRENCY_LIMIT
            (map_option onUi onProgress) schedules w1 = Some (rs, w') \<and> list_all2 ?P uuids rs \<and> ?R w1 w'"
  proof (rule processBatch_total)
    show "0 < CONCURRENCY_LIMIT" by (simp add: CONCURRENCY_LIMIT_def)
    show "taskInv ?R (?P x) (admitProcessParticipant sdk ?snap x)" for x
      by (rule taskInv_mono [OF admitProcessParticipant_inv]) simp_all
    show "?R w0 w0" for w0 by (rule callsGrow_refl)
    show "?R a b \<Longrightarrow> ?R b c \<Longrightarrow> ?R a c" for a b c by (rule callsGrow_trans)
    show "map_option onUi onProgress = Some f \<Longrightarrow> ?R w0 (f c t w0)" for f c t w0
      by (auto simp: callsGrow_onUi)
  qed
  then obtain rs w' where
    run: "processBatch uuids (admitProcessParticipant sdk ?snap) CONCURRENCY_LIMIT
            (map_option onUi onProgress) schedules w1 = Some (rs, w')"
    and all: "list_all2 ?P uuids rs" and grow: "?R w1 w'"
    by blast
  from grow obtain cs where cs: "calls w' = calls w1 @ cs" "set cs \<subseteq> AdmitCall ` set ?snap"
    by (auto simp: callsGrow_def)
  have "admitParticipantsFromWaitingRoom sdk uuids onProgress schedules w = Some (rs, w')"
    using g run by (simp add: admitParticipantsFromWaitingRoom_def waitingRoomSnapshot_def)
  moreover have "length rs = length uuids"
    using all by (simp add: list_all2_lengthD)
  moreover have "calls w' = calls w @ WaitingRoomListCall # cs"
    using cs c1 by simp
  moreover have "WaitingRoomListCall \<notin> set cs"
    using cs by auto
  moreover have "\<forall>i < length uuids. uuids ! i \<notin> set ?snap \<longrightarrow>
        rs ! i = notInWaitingRoom (uuids ! i) \<and> AdmitCall (uuids ! i) \<notin> set cs"
    using all cs by (auto simp: list_all2_conv_all_nth)
  ultimately show ?thesis by blast
qed

text \<open>
  An admit batch for \<open>p1\<close>, \<open>p3\<close> and \<open>p2\<close> while only \<open>p1\<close> and \<open>p2\<close> wait, at the
  provider that rejects its first four calls, the processors of \<open>p1\<close> and \<open>p2\<close> taking
  turns: each of them is rejected twice and admitted at its third call, six admit calls
  in all, and \<open>p3\<close> fails at once without a call.
\<close>

lemma admit_interleaved_run:
  "admitParticipantsFromWaitingRoom
     (flakyZoom 4 [\<lparr>wr_participantUUID = ''p1'', wr_displayName = ''Alice''\<rparr>,
                   \<lparr>wr_participantUUID = ''p2'', wr_displayName = ''Bob''\<rparr>])
     [''p1'', ''p3'', ''p2''] None [[0, 2, 0, 2, 0, 2, 0, 2, 0, 2]] world0
   = Some ([\<lparr>op_participantUUID = ''p1'', op_success = True, op_error = None, retryCount = 0\<rparr>,
            notInWaitingRoom ''p3'',
            \<lparr>op_participantUUID = ''p2'', op_success = True, op_error = None, retryCount = 0\<rparr>],
           \<lparr>provider = 6, ui = (), slept = [300, 300, 900, 900],
              calls = [WaitingRoomListCall, AdmitCall ''p1'', AdmitCall ''p2'', AdmitCall ''p1'',
                       AdmitCall ''p2'', AdmitCall ''p1'', AdmitCall ''p2'']\<rparr>)"
  by code_simp

theorem admit_absent_fails_fast_witness:
  "\<exists>rs w' cs.
     admitParticipantsFromWaitingRoom
       (flakyZoom 4 [\<lparr>wr_participantUUID = ''p1'', wr_displayName = ''Alice''\<rparr>,
                     \<lparr>wr_participantUUID = ''p2'', wr_displayName = ''Bob''\<rparr>])
       [''p1'', ''p3'', ''p2''] None [[0, 2, 0, 2, 0, 2, 0, 2, 0, 2]] world0 = Some (rs, w') \<and>
     calls w' = calls world0 @ WaitingRoomListCall # cs \<and>
     rs ! 1 = notInWaitingRoom ''p3'' \<and> AdmitCall ''p3'' \<notin> set cs"
proof -
  let ?sdk = "flakyZoom 4 [\<lparr>wr_participantUUID = ''p1'', wr_displayName = ''Alice''\<rparr>,
                           \<lparr>wr_participantUUID = ''p2'', wr_displayName = ''Bob''\<rparr>]"
  let ?ids = "[''p1'', ''p3'', ''p2'']"
  let ?s = "[[0, 2, 0, 2, 0, 2, 0, 2, 0, 2]] :: nat list list"
  have absent: "''p3'' \<notin> set (waitingRoomSnapshot ?sdk world0)"
    by code_simp
  from admit_absent_fails_fast [of ?sdk ?ids None ?s world0]
  obtain rs w' cs where
    run: "admitParticipantsFromWaitingRoom ?sdk ?ids None ?s world0 = Some (rs, w')"
    and cs: "calls w' = calls world0 @ WaitingRoomListCall # cs"
    and all: "\<forall>i < length ?ids.
        ?ids ! i \<notin> set (waitingRoomSnapshot ?sdk world0) \<longrightarrow>
        rs ! i = notInWaitingRoom (?ids ! i) \<and> AdmitCall (?ids ! i) \<notin> set cs"
    by blast
  from all absent have "rs ! 1 = notInWaitingRoom ''p3'' \<and> AdmitCall ''p3'' \<notin> set cs"
    by (auto dest: spec [of _ 1])
  with run cs show ?thesis by blast
qed

text \<open>
  What \<open>processParticipant\<close> reports as \<open>retryCount\<close>: the constant 0 on success (the
  local \<open>retryCount\<close> is never assigned after its initialisation) and \<open>MAX_RETRIES\<close> on
  failure.
\<close>

lemma processParticipant_retryCount:
  assumes "returns (moveProcessParticipant sdk p) r"
  shows "(op_success r \<longrightarrow> retryCount r = 0) \<and> (\<not> op_success r \<longrightarrow> retryCount r = MAX_RETRIES)"
  using taskInv_returns [OF assms moveProcessParticipant_inv] by simp

text \<open>
  A participant processed alone, at the scripted provider whose first \<open>k\<close> move calls
  fail: with \<open>k\<close> above \<open>MAX_RETRIES\<close> every one of the four attempts fails and the
  result is the failure with \<open>retryCount = MAX_RETRIES\<close>; with \<open>k\<close> up to
  \<open>MAX_RETRIES\<close> the call is issued \<open>k + 1\<close> times and the result is a success with
  \<open>retryCount = 0\<close>.
\<close>

lemma move_exhausts_retries:
  assumes "MAX_RETRIES < k"
  shows "runTask (moveProcessParticipant (flakyZoom k waiting) p) world0 =
     (\<lparr>op_participantUUID = participantUUID p, op_success = False, op_error = Some ''busy'',
        retryCount = MAX_RETRIES\<rparr>,
      \<lparr>provider = 4, ui = (), slept = [300, 900, 2700],
        calls = replicate 4 (MoveCall (participantUUID p))\<rparr>)"
  using assms
  by (simp add: moveProcessParticipant_def retryWithBackoff_def retryLoop.simps moveAttempt_def
        await_def moveToWaitingRoom_def flakyZoom_def world0_def MAX_RETRIES_def BASE_DELAY_def
        sleep_def numeral_eq_Suc)

lemma move_succeeds_within_retries:
  assumes "k \<le> MAX_RETRIES"
  shows "fst (runTask (moveProcessParticipant (flakyZoom k waiting) p) world0) =
     \<lparr>op_participantUUID = participantUUID p, op_success = True, op_error = None,
        retryCount = 0\<rparr>
   \<and> calls (snd (runTask (moveProcessParticipant (flakyZoom k waiting) p) world0))
       = replicate (Suc k) (MoveCall (participantUUID p))"
proof -
  from assms have "k = 0 \<or> k = 1 \<or> k = 2 \<or> k = 3"
    by (auto simp: MAX_RETRIES_def)
  then show ?thesis
    by (elim disjE)
       (simp_all add: moveProcessParticipant_def retryWithBackoff_def retryLoop.simps
          moveAttempt_def await_def moveToWaitingRoom_def flakyZoom_def world0_def
          MAX_RETRIES_def BASE_DELAY_def sleep_def numeral_eq_Suc)
qed

lemma moveParticipants_single:
  "moveParticipantsToWaitingRoom sdk [p] None schedules w =
     (case runTask (moveProcessParticipant sdk p) w of (r, w') \<Rightarrow> Some ([r], w'))"
  by (simp add: moveParticipantsToWaitingRoom_def processBatch_single CONCURRENCY_LIMIT_def)

lemma alice_alone:
  "runTask (moveProcessParticipant (flakyZoom 1 []) alice) world0 =
     (\<lparr>op_participantUUID = ''p1'', op_success = True, op_error = None, retryCount = 0\<rparr>,
      \<lparr>provider = 2, ui = (), slept = [300], calls = [MoveCall ''p1'', MoveCall ''p1'']\<rparr>)"
  "runTask (moveProcessParticipant (flakyZoom 2 []) alice) world0 =
     (\<lparr>op_participantUUID = ''p1'', op_success = True, op_error = None, retryCount = 0\<rparr>,
      \<lparr>provider = 3, ui = (), slept = [300, 900],
         calls = [MoveCall ''p1'', MoveCall ''p1'', MoveCall ''p1'']\<rparr>)"
  "runTask (moveProcessParticipant (flakyZoom 4 []) alice) world0 =
     (\<lparr>op_participantUUID = ''p1'', op_success = False, op_error = Some ''busy'', retryCount = 3\<rparr>,
      \<lparr>provider = 4, ui = (), slept = [300, 900, 2700],
         calls = [MoveCall ''p1'', MoveCall ''p1'', MoveCall ''p1'', MoveCall ''p1'']\<rparr>)"
  by code_simp+

lemma move_all_attempts_fail:
  "moveParticipantsToWaitingRoom (flakyZoom 4 []) [alice] None schedules world0 =
     Some ([\<lparr>op_participantUUID = ''p1'', op_success = False, op_error = Some ''busy'',
              retryCount = 3\<rparr>],
           \<lparr>provider = 4, ui = (), slept = [300, 900, 2700],
              calls = [MoveCall ''p1'', MoveCall ''p1'', MoveCall ''p1'', MoveCall ''p1'']\<rparr>)"
  unfolding moveParticipants_single alice_alone by simp

text \<open>
  In a chunk of several participants the answers of a provider may depend on the order of
  the calls. At the provider that rejects its first four calls, two participants whose
  processors take turns are each rejected twice and moved at their third call; if the
  first processor takes all its steps before the second one starts, it uses up the four
  rejections and fails. In both runs every success reports \<open>retryCount = 0\<close>.
\<close>

lemma move_interleaved_run:
  "moveParticipantsToWaitingRoom (flakyZoom 4 []) [alice, bob] None
     [[0, 1, 0, 1, 0, 1, 0, 1, 0, 1]] world0 =
     Some ([\<lparr>op_participantUUID = ''p1'', op_success = True, op_error = None, retryCount = 0\<rparr>,
            \<lparr>op_participantUUID = ''p2'', op_success = True, op_error = None, retryCount = 0\<rparr>],
           \<lparr>provider = 6, ui = (), slept = [300, 300, 900, 900],
              calls = [MoveCall ''p1'', MoveCall ''p2'', MoveCall ''p1'', MoveCall ''p2'',
                       MoveCall ''p1'', MoveCall ''p2'']\<rparr>)"
  by code_simp

lemma move_one_after_the_other_run:
  "moveParticipantsToWaitingRoom (flakyZoom 4 []) [alice, bob] None [] world0 =
     Some ([\<lparr>op_participantUUID = ''p1'', op_success = False, op_error = Some ''busy'', retryCount = 3\<rparr>,
            \<lparr>op_participantUUID = ''p2'', op_success = True, op_error = None, retryCount = 0\<rparr>],
           \<lparr>provider = 5, ui = (), slept = [300, 900, 2700],
              calls = [MoveCall ''p1'', MoveCall ''p1'', MoveCall ''p1'', MoveCall ''p1'',
                       MoveCall ''p2'']\<rparr>)"
  by code_simp

text \<open>
  Claim C1, at a provider whose move call fails once and then succeeds: two calls are
  issued, one delay of 300 ms is slept, and the result reports success with
  \<open>retryCount = 0\<close>, where the claim says 1. After two failures: three calls, delays of
  300 and 900 ms, and again \<open>retryCount = 0\<close>, where the claim says 2. The batch has one
  participant, so its processor runs alone under every schedule.
\<close>

theorem move_retry_count_not_reported:
  "moveParticipantsToWaitingRoom (flakyZoom 1 []) [alice] None schedules world0 =
     Some ([\<lparr>op_participantUUID = ''p1'', op_success = True, op_error = None, retryCount = 0\<rparr>],
           \<lparr>provider = 2, ui = (), slept = [300], calls = [MoveCall ''p1'', MoveCall ''p1'']\<rparr>)
   \<and> moveParticipantsToWaitingRoom (flakyZoom 2 []) [alice] None schedules world0 =
     Some ([\<lparr>op_participantUUID = ''p1'', op_success = True, op_error = None, retryCount = 0\<rparr>],
           \<lparr>provider = 3, ui = (), slept = [300, 900],
              calls = [MoveCall ''p1'', MoveCall ''p1'', MoveCall ''p1'']\<rparr>)"
  unfolding moveParticipants_single alice_alone by simp

section \<open>Properties of the CSV parser\<close>

lemma map_set_nonempty: "map_set k v m \<noteq> []"
  by (cases m) (auto split: if_splits)

lemma addToRound_nonempty: "addToRound r e m \<noteq> []"
  by (simp add: addToRound_def map_set_nonempty)

lemma parseRowBasedRow_rounds:
  "r_rounds (parseRowBasedRow row n acc) = [] \<longleftrightarrow> r_rounds acc = [] \<and> \<not> rowAccepted row"
  by (auto simp: parseRowBasedRow_def rowAccepted_def warn_def Let_def addToRound_nonempty
           split: option.splits)

lemma parseRowBasedLoop_rounds:
  "r_rounds (parseRowBasedLoop rows i acc) = []
     \<longleftrightarrow> r_rounds acc = [] \<and> (\<forall>row \<in> set rows. \<not> rowAccepted row)"
  by (induction rows arbitrary: i acc) (auto simp: parseRowBasedRow_rounds)

lemma parseRowBased_rounds_empty:
  "r_rounds (parseRowBased rows) = [] \<longleftrightarrow> (\<forall>row \<in> set rows. \<not> rowAccepted row)"
  by (simp add: parseRowBased_def parseRowBasedLoop_rounds)

lemma fold_addToRound_nonempty:
  "m \<noteq> [] \<Longrightarrow>
   fold (\<lambda>roundCol rounds. if P roundCol then addToRound roundCol e rounds else rounds) cols m \<noteq> []"
  by (induction cols arbitrary: m) (auto simp: addToRound_nonempty)

lemma parseColumnBasedRow_nonempty:
  "r_rounds acc \<noteq> [] \<Longrightarrow> r_rounds (parseColumnBasedRow ek nk cols row n acc) \<noteq> []"
  by (simp add: parseColumnBasedRow_def warn_def Let_def fold_addToRound_nonempty)

lemma parseColumnBasedLoop_nonempty:
  "r_rounds acc \<noteq> [] \<Longrightarrow> r_rounds (parseColumnBasedLoop ek nk cols rows i acc) \<noteq> []"
  by (induction rows arbitrary: i acc) (auto simp: parseColumnBasedRow_nonempty)

lemma fold_map_set_nonempty:
  "cols \<noteq> [] \<or> m \<noteq> [] \<Longrightarrow> fold (\<lambda>roundCol rounds. map_set roundCol v rounds) cols m \<noteq> []"
  by (induction cols arbitrary: m) (auto simp: map_set_nonempty)

lemma parseColumnBased_rounds_empty:
  "r_rounds (parseColumnBased rows headers) = [] \<longleftrightarrow> roundColumnsOf headers = []"
  by (auto simp: parseColumnBased_def roundColumnsOf_def Let_def parseColumnBasedLoop_nonempty
        fold_map_set_nonempty split: option.splits)

lemma skippedRowSample_parsed:
  "papa_data (papaParse skippedRowSample) \<noteq> []
   \<and> detectCSVFormat (headersOf (papaParse skippedRowSample)) = ColumnBased
   \<and> r_rounds (processed (papaParse skippedRowSample)) \<noteq> []
   \<and> length (r_warnings (processed (papaParse skippedRowSample))) = 1"
  by code_simp

text \<open>
  Claim C3. \<open>parseCSV\<close> resolves to \<open>success = false\<close> exactly when there is no data
  row, or the header format is not detected, or the round map is empty after processing.
  In every other case it resolves to \<open>success = true\<close> and carries all the warnings of
  the skipped rows: warnings never block success. The round map of a row-based file is
  empty exactly when every row was skipped; that of a column-based file exactly when the
  header has no round column.
\<close>

theorem parseCSV_fails_iff:
  "(success (parseCSVComplete results) = False)
     = (papa_data results = [] \<or> detectCSVFormat (headersOf results) = Unknown
        \<or> r_rounds (processed results) = [])
   \<and> (papa_data results \<noteq> [] \<and> detectCSVFormat (headersOf results) \<noteq> Unknown
        \<and> r_rounds (processed results) \<noteq> [] \<longrightarrow>
      success (parseCSVComplete results)
      \<and> warnings (parseCSVComplete results) = r_warnings (processed results))
   \<and> (detectCSVFormat (headersOf results) = RowBased \<longrightarrow>
        (r_rounds (processed results) = [])
          = (\<forall>row \<in> set (papa_data results). \<not> rowAccepted row))
   \<and> (detectCSVFormat (headersOf results) = ColumnBased \<longrightarrow>
        (r_rounds (processed results) = []) = (roundColumnsOf (headersOf results) = []))"
proof (intro conjI impI)
  show "(success (parseCSVComplete results) = False)
     = (papa_data results = [] \<or> detectCSVFormat (headersOf results) = Unknown
        \<or> r_rounds (processed results) = [])"
    by (simp add: parseCSVComplete_def Let_def)
next
  assume "papa_data results \<noteq> [] \<and> detectCSVFormat (headersOf results) \<noteq> Unknown
        \<and> r_rounds (processed results) \<noteq> []"
  then show "success (parseCSVComplete results)"
    and "warnings (parseCSVComplete results) = r_warnings (processed results)"
    by (simp_all add: parseCSVComplete_def Let_def)
next
  assume "detectCSVFormat (headersOf results) = RowBased"
  then show "(r_rounds (processed results) = [])
          = (\<forall>row \<in> set (papa_data results). \<not> rowAccepted row)"
    by (simp add: processed_def parseRowBased_rounds_empty)
next
  assume "detectCSVFormat (headersOf results) = ColumnBased"
  then show "(r_rounds (processed results) = []) = (roundColumnsOf (headersOf results) = [])"
    by (simp add: processed_def parseColumnBased_rounds_empty)
qed

theorem parseCSV_fails_iff_witness:
  "papa_data (papaParse skippedRowSample) \<noteq> []
   \<and> detectCSVFormat (headersOf (papaParse skippedRowSample)) = ColumnBased
   \<and> r_rounds (processed (papaParse skippedRowSample)) \<noteq> []
   \<and> success (parseCSV skippedRowSample)
   \<and> length (warnings (parseCSV skippedRowSample)) = 1
   \<and> roundColumnsOf (headersOf (papaParse skippedRowSample)) \<noteq> []"
  using parseCSV_fails_iff [of "papaParse skippedRowSample"] skippedRowSample_parsed
  by (simp add: parseCSV_def)

text \<open>
  The round columns of a file with four columns are read as such: the sample of the
  source parses as column-based.
\<close>

lemma sampleColumnBasedCSV_parsed:
  "data (parseCSV sampleColumnBasedCSV) =
     Some \<lparr> format = ColumnBased,
            rounds = [(''round_1'', [''alice@example.com'', ''bob@example.com'']),
                      (''round_2'', [''bob@example.com'', ''carol@example.com'']),
                      (''round_3'', [''alice@example.com'', ''dave@example.com''])],
            csv_emailToName = [] \<rparr>"
  by code_simp

lemma quickstartColumnSample_parsed:
  "data (parseCSV quickstartColumnSample) =
     Some \<lparr> format = RowBased,
            rounds = [(''1'', [''alice@example.com'', ''bob@example.com''])],
            csv_emailToName = [] \<rparr>"
  by code_simp

text \<open>
  Claim C2, evaluated: the text of Scenario B has three columns, one with \<open>round\<close> and
  one with \<open>email\<close> in its name, so \<open>detectCSVFormat\<close> answers row-based; the cells of
  the column \<open>round_1\<close> become the round identifiers \<open>1\<close> and \<open>yes\<close>, and the column
  \<open>round_2\<close> is not read.
\<close>

theorem scenarioB_detected_row_based:
  "parseCSV scenarioB =
     \<lparr> success = True,
       data = Some \<lparr> format = RowBased,
                     rounds = [(''1'', [''alice@example.com'']), (''yes'', [''bob@example.com''])],
                     csv_emailToName = [] \<rparr>,
       errors = [], warnings = [],
       stats = \<lparr>totalRows = 2, roundsFound = 2, uniqueEmails = 2\<rparr> \<rparr>"
  by code_simp

section \<open>Properties of the store\<close>

lemma map_get_map_set: "map_get (map_set k v m) k' = (if k' = k then Some v else map_get m k')"
  by (induction m) (auto simp: map_get_def)

lemma keys_map_set:
  "map fst (map_set k v m) = (if k \<in> fst ` set m then map fst m else map fst m @ [k])"
  by (induction m) (force simp: image_iff)+

lemma map_get_map_modify:
  "map_get (map_modify k f m) k' = (if k' = k then map_option f (map_get m k) else map_get m k')"
  by (induction m) (auto simp: map_get_def map_modify_def)

lemma keys_map_modify: "map fst (map_modify k f m) = map fst m"
  by (induction m) (auto simp: map_modify_def)

lemma map_has_iff: "map_has m k \<longleftrightarrow> map_get m k \<noteq> None"
  by (simp add: map_has_def map_get_def map_of_eq_None_iff)

lemma count_key:
  "distinct (map fst m) \<Longrightarrow>
   length (filter (\<lambda>kv. fst kv = k) m) = (if k \<in> fst ` set m then 1 else 0)"
  by (induction m) (auto simp: image_iff)

lemma app_saveState: "app (saveState st s) = app s"
  by (simp add: saveState_def Date_now_def Let_def)

lemma clockReads_saveState: "clockReads (saveState st s) = clockReads s + 1"
  by (simp add: saveState_def Date_now_def Let_def)

lemma clock_saveState: "clock (saveState st s) = clock s"
  by (simp add: saveState_def Date_now_def Let_def)

lemma uuid_saveState: "uuidSource (saveState st s) = uuidSource s \<and> uuidReads (saveState st s) = uuidReads s"
  by (simp add: saveState_def Date_now_def Let_def)

lemma app_addActionLog:
  "app (addActionLog entry s) =
     (app s)\<lparr>actionLog := actionLog (app s)
        @ [entry\<lparr>log_id := uuidSource s (uuidReads s), log_timestamp := clock s (clockReads s),
                  log_sessionId := sessionId (app s)\<rparr>]\<rparr>"
  by (simp add: addActionLog_def generateUUID_def Date_now_def Let_def)

lemma startRound_activeRounds:
  "activeRounds (app (startRound rid s)) =
     (if \<not> map_has (activeRounds (app s)) rid then
        map_set rid \<lparr> roundId = rid, movedParticipants = [], startedAt = Some (clock s (clockReads s)),
                      endedAt = None, movedCount = 0, admittedCount = 0 \<rparr> (activeRounds (app s))
      else map_modify rid (\<lambda>r. r\<lparr>startedAt := Some (clock s (clockReads s)), endedAt := None\<rparr>)
             (activeRounds (app s)))"
  by (simp add: startRound_def Let_def Date_now_def app_addActionLog app_saveState)

lemma endRound_app:
  "app (endRound rid s) =
     (case map_get (activeRounds (app s)) rid of
        None \<Rightarrow>
          (app s)\<lparr>actionLog := actionLog (app s)
             @ [(roundEntry end_round rid)\<lparr>log_id := uuidSource s (uuidReads s),
                  log_timestamp := clock s (clockReads s), log_sessionId := sessionId (app s)\<rparr>]\<rparr>
      | Some r \<Rightarrow>
          (app s)\<lparr>activeRounds :=
                    map_modify rid (\<lambda>r. r\<lparr>endedAt := Some (clock s (clockReads s))\<rparr>)
                      (activeRounds (app s)),
                  actionLog := actionLog (app s)
             @ [(roundEntry end_round rid)\<lparr>log_id := uuidSource s (uuidReads s),
                  log_timestamp := clock s (clockReads s + 2), log_sessionId := sessionId (app s)\<rparr>]\<rparr>)"
  by (simp add: endRound_def Let_def Date_now_def app_addActionLog app_saveState
       clockReads_saveState clock_saveState uuid_saveState split: option.splits)

lemma startRound_distinct:
  "distinct (map fst (activeRounds (app s))) \<Longrightarrow>
   distinct (map fst (activeRounds (app (startRound rid s))))"
  by (auto simp: startRound_activeRounds keys_map_set keys_map_modify map_has_def)

lemma startRound_has: "map_has (activeRounds (app (startRound rid s))) rid"
  by (auto simp: startRound_activeRounds map_has_iff map_get_map_set map_get_map_modify)

lemma startRound_records:
  "distinct (map fst (activeRounds (app s))) \<Longrightarrow> length (recordsFor rid (startRound rid s)) = 1"
  using startRound_has [of rid s] startRound_distinct [of s rid]
  by (simp add: recordsFor_def count_key map_has_def)

lemma startRound_moved:
  "getMovedParticipants rid (startRound rid s) = getMovedParticipants rid s"
  by (auto simp: getMovedParticipants_def startRound_activeRounds map_has_iff
        map_get_map_set map_get_map_modify split: option.splits)

text \<open>
  Claim C6. In a store whose round map has distinct keys: when no participant was moved
  for a round, two calls of \<open>startRound\<close> leave exactly one round-state record for it,
  with an empty moved set; the second call changes the round map only by setting the start
  timestamp and clearing the end timestamp of that record; and \<open>startRound\<close> on an
  existing round keeps its record single and its moved set as it was, element for element.
\<close>

theorem startRound_idempotent:
  assumes "distinct (map fst (activeRounds (app s)))"
  shows "(getMovedParticipants rid s = [] \<longrightarrow>
            length (recordsFor rid (startRound rid (startRound rid s))) = 1
            \<and> getMovedParticipants rid (startRound rid (startRound rid s)) = [])
         \<and> activeRounds (app (startRound rid (startRound rid s)))
             = map_modify rid
                 (\<lambda>r. r\<lparr>startedAt := Some (fst (Date_now (startRound rid s))), endedAt := None\<rparr>)
                 (activeRounds (app (startRound rid s)))
         \<and> (\<forall>r. map_get (activeRounds (app s)) rid = Some r \<longrightarrow>
               map_get (activeRounds (app (startRound rid s))) rid
                 = Some (r\<lparr>startedAt := Some (fst (Date_now s)), endedAt := None\<rparr>)
               \<and> getMovedParticipants rid (startRound rid s) = movedParticipants r
               \<and> length (recordsFor rid (startRound rid s)) = 1)"
proof (intro conjI impI allI)
  assume "getMovedParticipants rid s = []"
  then show "getMovedParticipants rid (startRound rid (startRound rid s)) = []"
    by (simp add: startRound_moved)
  show "length (recordsFor rid (startRound rid (startRound rid s))) = 1"
    using assms by (simp add: startRound_records startRound_distinct)
next
  show "activeRounds (app (startRound rid (startRound rid s)))
             = map_modify rid
                 (\<lambda>r. r\<lparr>startedAt := Some (fst (Date_now (startRound rid s))), endedAt := None\<rparr>)
                 (activeRounds (app (startRound rid s)))"
    using startRound_has [of rid s]
    by (simp add: startRound_activeRounds [of rid "startRound rid s"] Date_now_def)
next
  fix r assume r: "map_get (activeRounds (app s)) rid = Some r"
  then show "map_get (activeRounds (app (startRound rid s))) rid
                 = Some (r\<lparr>startedAt := Some (fst (Date_now s)), endedAt := None\<rparr>)"
    by (simp add: startRound_activeRounds map_has_iff map_get_map_modify Date_now_def)
  show "getMovedParticipants rid (startRound rid s) = movedParticipants r"
    unfolding startRound_moved using r by (simp add: getMovedParticipants_def)
  show "length (recordsFor rid (startRound rid s)) = 1"
    using assms by (simp add: startRound_records)
qed

lemma store0_distinct: "distinct (map fst (activeRounds (app store0)))"
  by (simp add: store0_def initialApp_def)

lemma activeStore_distinct: "distinct (map fst (activeRounds (app activeStore)))"
  by code_simp

lemma activeStore_round:
  "map_get (activeRounds (app activeStore)) ''round_1'' =
     Some \<lparr> roundId = ''round_1'', movedParticipants = [''p1'', ''p2''], startedAt = Some 1000,
            endedAt = None, movedCount = 0, admittedCount = 0 \<rparr>"
  by code_simp

theorem startRound_idempotent_witness:
  "distinct (map fst (activeRounds (app store0)))
   \<and> getMovedParticipants ''round_1'' store0 = []
   \<and> length (recordsFor ''round_1'' (startRound ''round_1'' (startRound ''round_1'' store0))) = 1
   \<and> getMovedParticipants ''round_1'' (startRound ''round_1'' (startRound ''round_1'' store0)) = []
   \<and> distinct (map fst (activeRounds (app activeStore)))
   \<and> getMovedParticipants ''round_1'' (startRound ''round_1'' activeStore) = [''p1'', ''p2'']"
proof -
  have empty: "getMovedParticipants ''round_1'' store0 = []"
    by code_simp
  from startRound_idempotent [OF store0_distinct, of "''round_1''"] empty
  have a: "length (recordsFor ''round_1'' (startRound ''round_1'' (startRound ''round_1'' store0))) = 1
     \<and> getMovedParticipants ''round_1'' (startRound ''round_1'' (startRound ''round_1'' store0)) = []"
    by blast
  from startRound_idempotent [OF activeStore_distinct, of "''round_1''"] activeStore_round
  have b: "getMovedParticipants ''round_1'' (startRound ''round_1'' activeStore) = [''p1'', ''p2'']"
    by simp
  show ?thesis using store0_distinct activeStore_distinct empty a b by blast
qed

text \<open>
  Claim C9, as amended. For a round with a round-state record, \<open>endRound\<close> sets the end
  timestamp of that record and changes nothing else in it (the moved set stays), leaves
  the records of the other rounds and the order of the rounds as they were, and leaves
  every other field of the state unchanged except the action log, which gains one
  \<open>end_round\<close> entry with status success.
\<close>

theorem endRound_frame:
  assumes "map_get (activeRounds (app s)) rid = Some r"
  shows "app (endRound rid s) =
           (app s)\<lparr>activeRounds :=
                     map_modify rid (\<lambda>r. r\<lparr>endedAt := Some (fst (Date_now s))\<rparr>)
                       (activeRounds (app s)),
                   actionLog := actionLog (app s)
                     @ [(roundEntry end_round rid)\<lparr>log_id := uuidSource s (uuidReads s),
                          log_timestamp := clock s (clockReads s + 2),
                          log_sessionId := sessionId (app s)\<rparr>]\<rparr>
         \<and> map_get (activeRounds (app (endRound rid s))) rid
             = Some (r\<lparr>endedAt := Some (fst (Date_now s))\<rparr>)
         \<and> getMovedParticipants rid (endRound rid s) = movedParticipants r
         \<and> (\<forall>other. other \<noteq> rid \<longrightarrow>
               map_get (activeRounds (app (endRound rid s))) other
                 = map_get (activeRounds (app s)) other)
         \<and> map fst (activeRounds (app (endRound rid s))) = map fst (activeRounds (app s))"
  using assms
  by (simp add: endRound_app getMovedParticipants_def map_get_map_modify keys_map_modify
        Date_now_def)

theorem endRound_frame_witness:
  "map_get (activeRounds (app activeStore)) ''round_1'' =
     Some \<lparr> roundId = ''round_1'', movedParticipants = [''p1'', ''p2''], startedAt = Some 1000,
            endedAt = None, movedCount = 0, admittedCount = 0 \<rparr>
   \<and> map_get (activeRounds (app (endRound ''round_1'' activeStore))) ''round_1'' =
     Some \<lparr> roundId = ''round_1'', movedParticipants = [''p1'', ''p2''], startedAt = Some 1000,
            endedAt = Some 1005, movedCount = 0, admittedCount = 0 \<rparr>
   \<and> getMovedParticipants ''round_1'' (endRound ''round_1'' activeStore) = [''p1'', ''p2'']"
proof -
  have now: "fst (Date_now activeStore) = 1005"
    by code_simp
  from endRound_frame [OF activeStore_round]
  have "map_get (activeRounds (app (endRound ''round_1'' activeStore))) ''round_1''
          = Some (\<lparr> roundId = ''round_1'', movedParticipants = [''p1'', ''p2''],
                      startedAt = Some 1000, endedAt = None, movedCount = 0,
                      admittedCount = 0 \<rparr>\<lparr>endedAt := Some (fst (Date_now activeStore))\<rparr>)"
    and "getMovedParticipants ''round_1'' (endRound ''round_1'' activeStore)
          = movedParticipants \<lparr> roundId = ''round_1'', movedParticipants = [''p1'', ''p2''],
                      startedAt = Some 1000, endedAt = None, movedCount = 0,
                      admittedCount = 0 \<rparr>"
    by blast+
  with now activeStore_round show ?thesis by simp
qed

text \<open>
  Claim C9 as stated fails: \<open>endRound\<close> does not leave every other field of the store
  unchanged, it appends to the action log.
\<close>

theorem endRound_changes_actionLog:
  "actionLog (app (endRound ''round_1'' activeStore)) \<noteq> actionLog (app activeStore)"
  by code_simp

lemma protoCSV_parsed:
  "data (parseCSV protoCSV) = Some \<lparr>format = RowBased, rounds = protoRounds, csv_emailToName = []\<rparr>"
  by code_simp

lemma proto_set:
  "parsedRounds (app (setParsedRounds protoRounds store0)) = protoRounds"
  by (simp add: setParsedRounds_def Let_def app_saveState)

lemma proto_loaded:
  "map_option l_parsedRounds (loadPersistedState (setParsedRounds protoRounds store0))
       = Some [(''round_1'', [''bob@example.com''])]"
  by code_simp

text \<open>
  Claim C4, evaluated at a state the parser produces: the CSV text \<open>protoCSV\<close> parses to a
  round map with the rounds \<open>__proto__\<close> and \<open>round_1\<close>; after \<open>setParsedRounds\<close> has
  saved it, \<open>loadPersistedState\<close> returns a round map with \<open>round_1\<close> only.
\<close>

theorem proto_round_lost_on_reload:
  "data (parseCSV protoCSV) =
     Some \<lparr>format = RowBased, rounds = protoRounds, csv_emailToName = []\<rparr>
   \<and> parsedRounds (app (setParsedRounds protoRounds store0)) = protoRounds
   \<and> map_option l_parsedRounds (loadPersistedState (setParsedRounds protoRounds store0))
       = Some [(''round_1'', [''bob@example.com''])]"
  using protoCSV_parsed proto_set proto_loaded by simp

text \<open>
  Apart from that key the copy is faithful: a plain object answers lookups like the map
  it was filled from.
\<close>

lemma map_of_map_set: "map_of (map_set k v m) k' = (if k' = k then Some v else map_of m k')"
  by (induction m) auto

lemma distinct_map_set: "distinct (map fst m) \<Longrightarrow> distinct (map fst (map_set k v m))"
  by (simp add: keys_map_set)

lemma map_of_insertIndexKey:
  "k \<notin> fst ` set obj \<Longrightarrow>
   map_of (insertIndexKey k v obj) k'' = (if k'' = k then Some v else map_of obj k'')"
  by (induction obj) auto

lemma keys_insertIndexKey:
  "fst ` set (insertIndexKey k v obj) = insert k (fst ` set obj)"
  by (induction obj) (force split: if_splits)+

lemma distinct_insertIndexKey:
  "k \<notin> fst ` set obj \<Longrightarrow> distinct (map fst obj) \<Longrightarrow>
   distinct (map fst (insertIndexKey k v obj))"
proof (induction obj)
  case Nil
  show ?case by simp
next
  case (Cons kv obj)
  obtain k' v' where kv: "kv = (k', v')" by (cases kv)
  have "k' \<notin> fst ` set (insertIndexKey k v obj)"
    using Cons.prems kv by (auto simp: keys_insertIndexKey)
  then show ?case
    using Cons kv by (auto simp: image_iff)
qed

lemma map_of_obj_set:
  assumes "k \<noteq> ''__proto__''"
  shows "map_of (obj_set k v obj) k'' = (if k'' = k then Some v else map_of obj k'')"
proof (cases "k \<in> fst ` set obj")
  case True
  then show ?thesis using assms by (simp add: obj_set_def map_of_map_set)
next
  case False
  then have none: "map_of obj k = None" by (simp add: map_of_eq_None_iff)
  show ?thesis
  proof (cases "isArrayIndex k")
    case True
    then show ?thesis using assms False by (simp add: obj_set_def map_of_insertIndexKey)
  next
    case nidx: False
    then show ?thesis
      using assms False none by (simp add: obj_set_def map_add_def split: option.splits)
  qed
qed

lemma distinct_obj_set:
  "distinct (map fst obj) \<Longrightarrow> distinct (map fst (obj_set k v obj))"
  by (simp add: obj_set_def distinct_map_set distinct_insertIndexKey)

lemma fold_obj_set_lookup:
  assumes "distinct (map fst xs)" and "''__proto__'' \<notin> fst ` set xs"
  shows "map_of (fold (\<lambda>(k, v) obj. obj_set k (f v) obj) xs acc) k =
           (if k \<in> fst ` set xs then map_option f (map_of xs k) else map_of acc k)"
  using assms
proof (induction xs arbitrary: acc)
  case Nil
  show ?case by simp
next
  case (Cons kv xs)
  obtain k0 v0 where kv: "kv = (k0, v0)" by (cases kv)
  have k0: "k0 \<noteq> ''__proto__''" "k0 \<notin> fst ` set xs"
    using Cons.prems kv by auto
  have IH: "map_of (fold (\<lambda>(k, v) obj. obj_set k (f v) obj) xs (obj_set k0 (f v0) acc)) k =
           (if k \<in> fst ` set xs then map_option f (map_of xs k)
            else map_of (obj_set k0 (f v0) acc) k)"
    using Cons.IH [of "obj_set k0 (f v0) acc"] Cons.prems by simp
  show ?case
    using IH k0 kv by (auto simp: map_of_obj_set)
qed

lemma fold_obj_set_distinct:
  "distinct (map fst acc) \<Longrightarrow>
   distinct (map fst (fold (\<lambda>(k, v) obj. obj_set k (f v) obj) xs acc))"
  by (induction xs arbitrary: acc) (auto simp: distinct_obj_set)

lemma fold_map_set_lookup:
  assumes "distinct (map fst ys)"
  shows "map_of (fold (\<lambda>(k, v) m. map_set k (g k v) m) ys acc) k =
           (if k \<in> fst ` set ys then map_option (g k) (map_of ys k) else map_of acc k)"
  using assms
proof (induction ys arbitrary: acc)
  case Nil
  show ?case by simp
next
  case (Cons kv ys)
  obtain k0 v0 where kv: "kv = (k0, v0)" by (cases kv)
  have k0: "k0 \<notin> fst ` set ys"
    using Cons.prems kv by auto
  have IH: "map_of (fold (\<lambda>(k, v) m. map_set k (g k v) m) ys (map_set k0 (g k0 v0) acc)) k =
           (if k \<in> fst ` set ys then map_option (g k) (map_of ys k)
            else map_of (map_set k0 (g k0 v0) acc) k)"
    using Cons.IH [of "map_set k0 (g k0 v0) acc"] Cons.prems by simp
  show ?case
    using IH k0 kv by (auto simp: map_of_map_set)
qed

lemma fold_map_set_distinct:
  "distinct (map fst acc) \<Longrightarrow>
   distinct (map fst (fold (\<lambda>(k, v) m. map_set k (g k v) m) ys acc))"
  by (induction ys arbitrary: acc) (auto simp: distinct_map_set)

lemma roundtrip_lookup:
  assumes "distinct (map fst xs)" and "''__proto__'' \<notin> fst ` set xs"
  shows "map_of (fold (\<lambda>(k, v) m. map_set k (g k v) m)
                   (fold (\<lambda>(k, v) obj. obj_set k (f v) obj) xs []) []) k
           = map_option (\<lambda>v. g k (f v)) (map_of xs k)"
proof -
  let ?obj = "fold (\<lambda>(k, v) obj. obj_set k (f v) obj) xs []"
  have d: "distinct (map fst ?obj)"
    by (rule fold_obj_set_distinct) simp
  have look: "map_of ?obj k = map_option f (map_of xs k)"
    using fold_obj_set_lookup [OF assms, of f "[]" k]
    by (auto simp: map_of_eq_None_iff)
  have "map_of (fold (\<lambda>(k, v) m. map_set k (g k v) m) ?obj []) k
          = (if k \<in> fst ` set ?obj then map_option (g k) (map_of ?obj k) else None)"
    using fold_map_set_lookup [OF d, of g "[]" k] by simp
  also have "\<dots> = map_option (g k) (map_of ?obj k)"
    by (auto simp: map_of_eq_None_iff [symmetric])
  finally show ?thesis
    by (simp add: look option.map_comp comp_def)
qed

lemma set_fold_set_add: "set (fold set_add xs acc) = set xs \<union> set acc"
  by (induction xs arbitrary: acc) (auto simp: set_set_add)

lemma set_new_Set: "set (new_Set xs) = set xs"
  by (simp add: new_Set_def set_fold_set_add)

lemma saveState_storage:
  "storageWorks s \<Longrightarrow>
   localStorage (saveState st s) =
     Some \<lparr> p_sessionId = sessionId st,
            p_parsedRounds = fold (\<lambda>(rid, emails) obj. obj_set rid emails obj) (parsedRounds st) [],
            p_emailToName = fold (\<lambda>(email, name) obj. obj_set email name obj) (emailToName st) [],
            p_activeRounds =
              fold (\<lambda>(rid, roundState) obj.
                      obj_set rid
                        \<lparr> p_movedParticipants = movedParticipants roundState,
                          p_startedAt = startedAt roundState,
                          p_endedAt = endedAt roundState,
                          p_movedCount = movedCount roundState,
                          p_admittedCount = admittedCount roundState \<rparr> obj)
                   (activeRounds st) [],
            p_selectedRoundId = selectedRoundId st,
            lastUpdated = clock s (clockReads s) \<rparr>
   \<and> storageWorks (saveState st s)"
  by (simp add: saveState_def Let_def Date_now_def JSON_stringify_def)

text \<open>
  The round trip for every other state: when \<open>localStorage\<close> works, the state is valid
  and none of its keys is \<open>__proto__\<close>, then \<open>loadPersistedState\<close> after \<open>saveState\<close>
  returns the session and the selected round as they were and maps with the same content:
  the same names, the same email sets and the same round states, moved sets compared as
  sets.
\<close>

lemma saveState_load_roundtrip:
  assumes works: "storageWorks s" and valid: "validState st" and free: "protoFree st"
  shows "\<exists>l. loadPersistedState (saveState st s) = Some l
           \<and> l_sessionId l = sessionId st
           \<and> l_selectedRoundId l = selectedRoundId st
           \<and> map_of (l_emailToName l) = map_of (emailToName st)
           \<and> (\<forall>k. map_option set (map_of (l_parsedRounds l) k)
                   = map_option set (map_of (parsedRounds st) k))
           \<and> (\<forall>k. map_option roundContent (map_of (l_activeRounds l) k)
                   = map_option roundContent (map_of (activeRounds st) k))
           \<and> distinct (map fst (l_parsedRounds l)) \<and> distinct (map fst (l_emailToName l))
           \<and> distinct (map fst (l_activeRounds l))"
proof -
  let ?toRound = "\<lambda>rid state.
        \<lparr> roundId = rid, movedParticipants = new_Set (p_movedParticipants state),
          startedAt = p_startedAt state, endedAt = p_endedAt state,
          movedCount = p_movedCount state, admittedCount = p_admittedCount state \<rparr>"
  let ?ofRound = "\<lambda>roundState.
        \<lparr> p_movedParticipants = movedParticipants roundState,
          p_startedAt = startedAt roundState, p_endedAt = endedAt roundState,
          p_movedCount = movedCount roundState, p_admittedCount = admittedCount roundState \<rparr>"
  let ?l = "\<lparr> l_sessionId = sessionId st,
      l_parsedRounds =
        fold (\<lambda>(rid, emails) m. map_set rid (new_Set emails) m)
          (fold (\<lambda>(rid, emails) obj. obj_set rid emails obj) (parsedRounds st) []) [],
      l_emailToName =
        fold (\<lambda>(email, name) m. map_set email name m)
          (fold (\<lambda>(email, name) obj. obj_set email name obj) (emailToName st) []) [],
      l_activeRounds =
        fold (\<lambda>(rid, state) m. map_set rid (?toRound rid state) m)
          (fold (\<lambda>(rid, roundState) obj. obj_set rid (?ofRound roundState) obj)
             (activeRounds st) []) [],
      l_selectedRoundId = selectedRoundId st \<rparr>"
  have load: "loadPersistedState (saveState st s) = Some ?l"
    using saveState_storage [OF works, of st]
    by (simp add: loadPersistedState_def JSON_parse_def Let_def)
  have d: "distinct (map fst (parsedRounds st))" "distinct (map fst (emailToName st))"
    "distinct (map fst (activeRounds st))"
    and ids: "list_all (\<lambda>(rid, r). roundId r = rid) (activeRounds st)"
    using valid by (simp_all add: validState_def)
  have p: "''__proto__'' \<notin> fst ` set (parsedRounds st)"
    "''__proto__'' \<notin> fst ` set (emailToName st)"
    "''__proto__'' \<notin> fst ` set (activeRounds st)"
    using free by (simp_all add: protoFree_def)
  have rounds: "map_option set (map_of (l_parsedRounds ?l) k)
                  = map_option set (map_of (parsedRounds st) k)" for k
    using roundtrip_lookup [OF d(1) p(1), of "\<lambda>k. new_Set" "\<lambda>v. v" k]
    by (simp add: option.map_comp comp_def set_new_Set)
  have names: "map_of (l_emailToName ?l) k = map_of (emailToName st) k" for k
    using roundtrip_lookup [OF d(2) p(2), of "\<lambda>k v. v" "\<lambda>v. v" k]
    by (simp add: option.map_ident)
  have active: "map_option roundContent (map_of (l_activeRounds ?l) k)
                  = map_option roundContent (map_of (activeRounds st) k)" for k
  proof (cases "map_of (activeRounds st) k")
    case None
    then show ?thesis
      using roundtrip_lookup [OF d(3) p(3), of ?toRound ?ofRound k] by simp
  next
    case (Some r)
    then have "(k, r) \<in> set (activeRounds st)" by (rule map_of_SomeD)
    then have "roundId r = k" using ids by (auto simp: list_all_iff)
    then show ?thesis
      using Some roundtrip_lookup [OF d(3) p(3), of ?toRound ?ofRound k]
      by (simp add: roundContent_def set_new_Set)
  qed
  have dist: "distinct (map fst (l_parsedRounds ?l))" "distinct (map fst (l_emailToName ?l))"
    "distinct (map fst (l_activeRounds ?l))"
    by (simp_all add: fold_map_set_distinct)
  show ?thesis
    using load rounds names active dist by (intro exI [of _ ?l]) (simp add: fun_eq_iff)
qed

end
